theory Spec2Isabelle
  imports Complex_Main "HOL-Library.Log_Nat" "HOL-Library.Word"
begin

section \<open>Arrays of 8-bit samples\<close>

text \<open>
  The frames of \<^verbatim>\<open>video_editor.py\<close> are three-dimensional numpy arrays of
  \<^verbatim>\<open>uint8\<close>, indexed row, column, channel. An array is modelled by its shape and its
  element function; only the elements inside the shape are meaningful. An image without
  colour channels (a two-dimensional array) is outside this type.
\<close>

type_synonym uint8 = "8 word"

record ndarray =
  shape :: "nat \<times> nat \<times> nat"
  elem :: "nat \<Rightarrow> nat \<Rightarrow> nat \<Rightarrow> uint8"

text \<open>
  The exceptions of the model are the subclasses of \<^verbatim>\<open>Exception\<close> that numpy and
  Python raise in the modelled code, and the ones raised inside the external libraries
  (moviepy, OpenCV), which carry the library's message.
\<close>

datatype exn = ValueError | ZeroDivisionError | LibraryError string

definition np_zeros :: "nat \<Rightarrow> nat \<Rightarrow> ndarray" where
  \<comment> \<open>\<^verbatim>\<open>np.zeros((h, w, 3), dtype=np.uint8)\<close>\<close>
  "np_zeros h w = \<lparr>shape = (h, w, 3), elem = (\<lambda>r c k. 0)\<rparr>"

definition np_zeros_like :: "ndarray \<Rightarrow> ndarray" where
  "np_zeros_like a = \<lparr>shape = shape a, elem = (\<lambda>r c k. 0)\<rparr>"

definition slice_bound :: "int \<Rightarrow> nat \<Rightarrow> nat" where
  \<comment> \<open>a bound of a Python slice over an axis of length \<open>n\<close>: a negative bound counts from
      the end, and the result is cut to \<open>0..n\<close>\<close>
  "slice_bound i n = (if i < 0 then nat (max 0 (i + int n)) else min (nat i) n)"

definition bcast_ok :: "nat \<Rightarrow> nat \<Rightarrow> bool" where
  \<comment> \<open>an axis of length \<open>src\<close> can be assigned to an axis of length \<open>dst\<close>\<close>
  "bcast_ok src dst \<longleftrightarrow> src = dst \<or> src = 1"

definition bidx :: "nat \<Rightarrow> nat \<Rightarrow> nat" where
  \<comment> \<open>the source index read for position \<open>i\<close>: an axis of length 1 is repeated\<close>
  "bidx src i = (if src = 1 then 0 else i)"

definition bview :: "(nat \<times> nat \<times> nat) \<Rightarrow> (nat \<Rightarrow> nat \<Rightarrow> nat \<Rightarrow> 'a) \<Rightarrow> nat \<Rightarrow> nat \<Rightarrow> nat \<Rightarrow> 'a" where
  "bview sh f = (\<lambda>i j k. case sh of (h, w, c) \<Rightarrow> f (bidx h i) (bidx w j) (bidx c k))"

definition np_assign ::
  "ndarray \<Rightarrow> nat \<times> nat \<Rightarrow> nat \<times> nat \<Rightarrow> nat \<times> nat \<Rightarrow> nat \<times> nat \<times> nat \<Rightarrow>
   (nat \<Rightarrow> nat \<Rightarrow> nat \<Rightarrow> uint8) \<Rightarrow> exn + ndarray" where
  \<comment> \<open>\<^verbatim>\<open>a[r0:r1, c0:c1, k0:k1] = src\<close> for slice bounds already cut to the shape of \<open>a\<close>;
      \<open>src\<close> has shape \<open>sshape\<close> and is read at positions relative to the slice. numpy
      raises ValueError when the shapes cannot be broadcast, before it writes anything.\<close>
  "np_assign a rows cols chans sshape src =
     (case (rows, cols, chans, sshape) of ((r0, r1), (c0, c1), (k0, k1), (sh, sw, sc)) \<Rightarrow>
        if bcast_ok sh (r1 - r0) \<and> bcast_ok sw (c1 - c0) \<and> bcast_ok sc (k1 - k0)
        then Inr (a\<lparr>elem := (\<lambda>r c k.
                 if r0 \<le> r \<and> r < r1 \<and> c0 \<le> c \<and> c < c1 \<and> k0 \<le> k \<and> k < k1
                 then src (r - r0) (c - c0) (k - k0) else elem a r c k)\<rparr>)
        else Inl ValueError)"

section \<open>The vertical shift of the preview (lines 114-120)\<close>

definition shift_frame :: "nat \<Rightarrow> nat \<Rightarrow> int \<Rightarrow> ndarray \<Rightarrow> exn + ndarray" where
  \<comment> \<open>\<^verbatim>\<open>background = np.zeros(...)\<close>, \<^verbatim>\<open>offset = min(self.offset, video_height - 10)\<close>,
      \<^verbatim>\<open>moved_frame[offset:, :] = frame[:video_height-offset, :]\<close>\<close>
  "shift_frame video_width video_height self_offset frame =
     (let background = np_zeros video_height video_width;
          offset = min self_offset (int video_height - 10);
          moved_frame = np_zeros_like background;
          fh = fst (shape frame);
          stop = slice_bound (int video_height - offset) fh;
          sshape = (stop, snd (shape frame))
      in np_assign moved_frame (slice_bound offset video_height, video_height)
           (0, video_width) (0, 3) sshape (bview sshape (elem frame)))"

section \<open>Double-precision arithmetic\<close>

text \<open>
  The alpha blending and the progress percentage are computed in Python floats (IEEE 754
  binary64). A float is modelled by the rational it denotes, and every operation by the
  exact operation followed by rounding to the nearest number with a 53-bit significand,
  ties to even. Overflow and subnormal numbers are not modelled: the operands here are
  samples in \<open>0..255\<close>, quotients by 255, and quotients of an index by a list length.
\<close>

definition round_half_even :: "rat \<Rightarrow> int" where
  "round_half_even q =
     (let f = \<lfloor>q\<rfloor>; d = q - of_int f
      in if d < 1 / 2 then f else if 1 / 2 < d then f + 1 else if even f then f else f + 1)"

definition ilog2 :: "rat \<Rightarrow> int" where
  \<comment> \<open>for \<open>q > 0\<close>, the \<open>e\<close> with \<open>2 powi e \<le> q < 2 powi (e + 1)\<close>\<close>
  "ilog2 q = (case quotient_of q of (n, d) \<Rightarrow>
                let k = bitlen n - bitlen d in if 2 powi k \<le> q then k else k - 1)"

definition fl64 :: "rat \<Rightarrow> rat" where
  "fl64 q = (if q = 0 then 0
             else let u = 2 powi (ilog2 \<bar>q\<bar> - 52)
                  in sgn q * of_int (round_half_even (\<bar>q\<bar> / u)) * u)"

definition alpha_of :: "uint8 \<Rightarrow> rat" where
  \<comment> \<open>\<^verbatim>\<open>alpha = img_resized[:, :, 3] / 255.0\<close> at one pixel\<close>
  "alpha_of a = fl64 (of_nat (unat a) / 255)"

definition blend :: "uint8 \<Rightarrow> uint8 \<Rightarrow> uint8 \<Rightarrow> uint8" where
  \<comment> \<open>\<^verbatim>\<open>bg * (1 - alpha) + fg * alpha\<close> at one pixel, stored into the \<^verbatim>\<open>uint8\<close> frame: the
      store drops the fraction\<close>
  "blend bg fg a =
     (let alpha = alpha_of a
      in word_of_int \<lfloor>fl64 (fl64 (of_nat (unat bg) * fl64 (1 - alpha))
                             + fl64 (of_nat (unat fg) * alpha))\<rfloor>)"

definition py_progress :: "nat \<Rightarrow> nat \<Rightarrow> int" where
  \<comment> \<open>\<^verbatim>\<open>int((idx / total_files) * 100)\<close>\<close>
  "py_progress idx total_files = \<lfloor>fl64 (fl64 (of_nat idx / of_nat total_files) * 100)\<rfloor>"

section \<open>The processor, the libraries and the signals\<close>

record processor =
  video_files :: "string list"
  offset :: int
  header_img1_path :: "string option"
  header_img1_x :: int
  header_img1_y :: int
  header_img1_scale :: rat
  header_img2_path :: "string option"
  header_img2_x :: int
  header_img2_y :: int
  header_img2_scale :: rat
  preview_only :: bool
  output_dir :: "string option"

text \<open>
  What the code reads of a moviepy clip: \<^verbatim>\<open>size\<close> is (width, height); the frame of an
  image clip is \<^verbatim>\<open>get_frame(0)\<close>.
\<close>

record video_clip =
  vc_size :: "nat \<times> nat"
  vc_duration :: rat
  vc_fps :: rat

record image_clip =
  ic_size :: "nat \<times> nat"
  ic_frame :: ndarray

text \<open>
  The layers handed to \<^verbatim>\<open>CompositeVideoClip\<close> (lines 255-297), and the arguments of
  \<^verbatim>\<open>write_videofile\<close> (lines 306-316).
\<close>

datatype layer =
    ColorLayer "nat \<times> nat" "nat \<times> nat \<times> nat" rat
  | VideoLayer video_clip "int \<times> int"
  | ImageLayer image_clip "int \<times> int" rat

record write_call =
  wc_clips :: "layer list"
  wc_size :: "nat \<times> nat"
  wc_filename :: string
  wc_codec :: string
  wc_audio_codec :: string
  wc_temp_audiofile :: string
  wc_remove_temp :: bool
  wc_fps :: rat
  wc_threads :: nat
  wc_preset :: string

text \<open>
  The code of moviepy, OpenCV and \<^verbatim>\<open>os.path\<close> is not part of the program: their
  functions are parameters of the model. A function that can raise returns a sum.
  \<open>resize_width clip video_width scale\<close> is \<^verbatim>\<open>clip.resize(width=video_width * scale)\<close>,
  \<open>cv2_resize img (w, h)\<close> is \<^verbatim>\<open>cv2.resize(img, (w, h))\<close>, and \<open>write_result\<close> is the
  exception raised by \<^verbatim>\<open>write_videofile\<close>, if any. Setting a position or a duration,
  building the composite and closing a clip are taken not to raise.
\<close>

record lib =
  path_exists :: "string \<Rightarrow> bool"
  path_basename :: "string \<Rightarrow> string"
  path_splitext :: "string \<Rightarrow> string \<times> string"
  path_join :: "string \<Rightarrow> string \<Rightarrow> string"
  VideoFileClip :: "string \<Rightarrow> exn + video_clip"
  get_frame :: "video_clip \<Rightarrow> rat \<Rightarrow> exn + ndarray"
  ImageClip :: "string \<Rightarrow> exn + image_clip"
  resize_width :: "image_clip \<Rightarrow> nat \<Rightarrow> rat \<Rightarrow> exn + image_clip"
  cv2_resize :: "ndarray \<Rightarrow> nat \<times> nat \<Rightarrow> exn + ndarray"
  write_result :: "write_call \<Rightarrow> exn option"

text \<open>
  The texts sent through \<^verbatim>\<open>error_occurred\<close>, one constructor for each format string of
  the source, with the values it interpolates. The number of an overlay is 1 or 2.
\<close>

datatype msg =
    NoVideoFiles
  | VideoLoaded string
  | VideoSize "nat \<times> nat"
  | CannotOpenVideo exn
  | ImageLoaded nat string
  | ImageInfo nat "nat \<times> nat" rat int "int \<times> int"
  | ImageError nat exn
  | PreviewError exn
  | NoOutputDir
  | UserInterrupt
  | ProcessingVideo nat nat string
  | ImageAdded nat rat "int \<times> int"
  | ImageAddError nat exn
  | Writing string
  | VideoDone string
  | VideoError string exn

text \<open>
  What a run does, in order: the four signals of the thread, and the calls of
  \<^verbatim>\<open>write_videofile\<close>. \<open>processing_finished n\<close> carries the count of the summary.
\<close>

datatype event =
    progress_updated int
  | processing_finished nat
  | preview_frame_ready ndarray
  | error_occurred msg
  | write_videofile write_call

section \<open>The overlays of the preview (lines 122-165 and 167-210)\<close>

definition clamp_rect :: "nat \<Rightarrow> nat \<Rightarrow> int \<Rightarrow> int \<Rightarrow> nat \<Rightarrow> nat \<Rightarrow> int \<times> int \<times> int \<times> int" where
  \<comment> \<open>lines 137-145: \<open>(x_pos, y_pos, img_w, img_h)\<close> from the position and the size of the
      resized bitmap\<close>
  "clamp_rect video_width video_height x y w h =
     (let x_pos = (if x < 0 then 0 else x);
          y_pos = (if y < 0 then 0 else y);
          img_w = (if x_pos + int w > int video_width then int video_width - x_pos else int w);
          img_h = (if y_pos + int h > int video_height then int video_height - y_pos else int h)
      in (x_pos, y_pos, img_w, img_h))"

definition frame_rows :: "ndarray \<Rightarrow> int \<Rightarrow> int \<Rightarrow> nat \<times> nat" where
  \<comment> \<open>the rows \<^verbatim>\<open>y_pos:y_pos+img_h\<close> of a frame\<close>
  "frame_rows a y_pos img_h =
     (slice_bound y_pos (fst (shape a)), slice_bound (y_pos + img_h) (fst (shape a)))"

definition frame_cols :: "ndarray \<Rightarrow> int \<Rightarrow> int \<Rightarrow> nat \<times> nat" where
  \<comment> \<open>the columns \<^verbatim>\<open>x_pos:x_pos+img_w\<close> of a frame\<close>
  "frame_cols a x_pos img_w =
     (slice_bound x_pos (fst (snd (shape a))), slice_bound (x_pos + img_w) (fst (snd (shape a))))"

definition blend_channel :: "ndarray \<Rightarrow> nat \<times> nat \<Rightarrow> nat \<times> nat \<Rightarrow> nat \<Rightarrow> ndarray \<Rightarrow> exn + ndarray" where
  \<comment> \<open>lines 155-158 for one channel \<open>c\<close>\<close>
  "blend_channel img_resized rows cols c moved_frame =
     (case shape img_resized of (rh, rw, rc) \<Rightarrow>
        np_assign moved_frame rows cols (c, c + 1) (rh, rw, 1)
          (\<lambda>i j k. blend (elem moved_frame (fst rows + i) (fst cols + j) c)
                          (elem img_resized (bidx rh i) (bidx rw j) c)
                          (elem img_resized (bidx rh i) (bidx rw j) 3)))"

fun blend_loop :: "ndarray \<Rightarrow> nat \<times> nat \<Rightarrow> nat \<times> nat \<Rightarrow> nat list \<Rightarrow> ndarray \<Rightarrow> ndarray \<times> exn option" where
  \<comment> \<open>\<^verbatim>\<open>for c in range(3)\<close>: an exception leaves the frame as the channels before it made it\<close>
  "blend_loop img_resized rows cols [] moved_frame = (moved_frame, None)"
| "blend_loop img_resized rows cols (c # cs) moved_frame =
     (case blend_channel img_resized rows cols c moved_frame of
        Inl e \<Rightarrow> (moved_frame, Some e)
      | Inr moved_frame' \<Rightarrow> blend_loop img_resized rows cols cs moved_frame')"

definition composite :: "ndarray \<Rightarrow> int \<Rightarrow> int \<Rightarrow> int \<Rightarrow> int \<Rightarrow> ndarray \<Rightarrow> ndarray \<times> exn option" where
  \<comment> \<open>lines 152-160: blend when the bitmap has four channels, else overwrite\<close>
  "composite img_resized x_pos y_pos img_w img_h moved_frame =
     (let rows = frame_rows moved_frame y_pos img_h;
          cols = frame_cols moved_frame x_pos img_w
      in case shape img_resized of (rh, rw, rc) \<Rightarrow>
           if rc = 4 then blend_loop img_resized rows cols [0, 1, 2] moved_frame
           else (case np_assign moved_frame rows cols (0, 3) (rh, rw, min rc 3)
                        (bview (rh, rw, min rc 3) (elem img_resized)) of
                   Inl e \<Rightarrow> (moved_frame, Some e)
                 | Inr moved_frame' \<Rightarrow> (moved_frame', None)))"

definition place_overlay ::
  "lib \<Rightarrow> nat \<Rightarrow> nat \<Rightarrow> ndarray \<Rightarrow> int \<Rightarrow> int \<Rightarrow> ndarray \<Rightarrow> ndarray \<times> exn option" where
  \<comment> \<open>lines 137-160, from the bitmap \<^verbatim>\<open>img1_array\<close> of the resized clip\<close>
  "place_overlay L video_width video_height img_array x y moved_frame =
     (case shape img_array of (h, w, ch) \<Rightarrow>
      case clamp_rect video_width video_height x y w h of (x_pos, y_pos, img_w, img_h) \<Rightarrow>
        if img_w > 0 \<and> img_h > 0
        then (case cv2_resize L img_array (nat img_w, nat img_h) of
                Inl e \<Rightarrow> (moved_frame, Some e)
              | Inr img_resized \<Rightarrow> composite img_resized x_pos y_pos img_w img_h moved_frame)
        else (moved_frame, None))"

definition overlay_block ::
  "lib \<Rightarrow> nat \<Rightarrow> nat \<Rightarrow> nat \<Rightarrow> string option \<Rightarrow> int \<Rightarrow> int \<Rightarrow> rat \<Rightarrow> ndarray \<Rightarrow> ndarray \<times> msg list" where
  \<comment> \<open>one \<^verbatim>\<open>try\<close> block of the preview, for overlay \<open>n\<close>. The quotients of lines 128-129 are
      not used; what is kept of them is the ZeroDivisionError of a zero width.\<close>
  "overlay_block L n video_width video_height path x y scale moved_frame =
     (case path of
        None \<Rightarrow> (moved_frame, [])
      | Some p \<Rightarrow>
          if p \<noteq> [] \<and> path_exists L p
          then (case ImageClip L p of
                  Inl e \<Rightarrow> (moved_frame, [ImageError n e])
                | Inr header_img \<Rightarrow>
                    if video_width = 0 \<or> fst (ic_size header_img) = 0
                    then (moved_frame, [ImageError n ZeroDivisionError])
                    else (case resize_width L header_img video_width scale of
                            Inl e \<Rightarrow> (moved_frame, [ImageError n e])
                          | Inr header_img' \<Rightarrow>
                              (case place_overlay L video_width video_height (ic_frame header_img')
                                      x y moved_frame of
                                 (moved_frame', Some e) \<Rightarrow> (moved_frame', [ImageError n e])
                               | (moved_frame', None) \<Rightarrow>
                                   (case shape (ic_frame header_img') of (h, w, ch) \<Rightarrow>
                                    case clamp_rect video_width video_height x y w h of
                                      (x_pos, y_pos, img_w, img_h) \<Rightarrow>
                                        (moved_frame',
                                         [ImageLoaded n (path_basename L p),
                                          ImageInfo n (ic_size header_img') scale img_w
                                            (x_pos, y_pos)])))))
          else (moved_frame, []))"

section \<open>The preview (lines 88-220)\<close>

definition process_preview :: "lib \<Rightarrow> processor \<Rightarrow> event list" where
  "process_preview L self =
     (case video_files self of
        [] \<Rightarrow> [error_occurred NoVideoFiles]
      | video_path # _ \<Rightarrow>
          (case VideoFileClip L video_path of
             Inl e \<Rightarrow> [error_occurred (CannotOpenVideo e)]
           | Inr video_clip \<Rightarrow>
               [error_occurred (VideoLoaded (path_basename L video_path)),
                error_occurred (VideoSize (vc_size video_clip))] @
               (case vc_size video_clip of (video_width, video_height) \<Rightarrow>
                  (case get_frame L video_clip (min 1 (vc_duration video_clip / 2)) of
                     Inl e \<Rightarrow> [error_occurred (PreviewError e)]
                   | Inr frame \<Rightarrow>
                       (case shift_frame video_width video_height (offset self) frame of
                          Inl e \<Rightarrow> [error_occurred (PreviewError e)]
                        | Inr moved_frame \<Rightarrow>
                            (case overlay_block L 1 video_width video_height
                                    (header_img1_path self) (header_img1_x self)
                                    (header_img1_y self) (header_img1_scale self) moved_frame of
                               (frame1, log1) \<Rightarrow>
                             case overlay_block L 2 video_width video_height
                                    (header_img2_path self) (header_img2_x self)
                                    (header_img2_y self) (header_img2_scale self) frame1 of
                               (frame2, log2) \<Rightarrow>
                                 map error_occurred log1 @ map error_occurred log2 @
                                 [preview_frame_ready frame2]))))))"

section \<open>The export (lines 222-334)\<close>

definition add_overlay ::
  "lib \<Rightarrow> nat \<Rightarrow> nat \<Rightarrow> rat \<Rightarrow> string option \<Rightarrow> int \<Rightarrow> int \<Rightarrow> rat \<Rightarrow> layer list \<Rightarrow> layer list \<times> msg list" where
  \<comment> \<open>one \<^verbatim>\<open>try\<close> block of lines 266-294, for overlay \<open>n\<close>\<close>
  "add_overlay L n video_width duration path x y scale clips =
     (case path of
        None \<Rightarrow> (clips, [])
      | Some p \<Rightarrow>
          if p \<noteq> [] \<and> path_exists L p
          then (case ImageClip L p of
                  Inl e \<Rightarrow> (clips, [ImageAddError n e])
                | Inr header_img \<Rightarrow>
                    (case resize_width L header_img video_width scale of
                       Inl e \<Rightarrow> (clips, [ImageAddError n e])
                     | Inr header_img' \<Rightarrow>
                         (clips @ [ImageLayer header_img' (x, y) duration],
                          [ImageAdded n scale (x, y)])))
          else (clips, []))"

definition build_clips :: "lib \<Rightarrow> processor \<Rightarrow> video_clip \<Rightarrow> layer list \<times> msg list" where
  \<comment> \<open>lines 255-294: the layers of the composite and the texts of the two overlay blocks\<close>
  "build_clips L self video_clip =
     (case vc_size video_clip of (video_width, video_height) \<Rightarrow>
        let background = ColorLayer (video_width, video_height) (0, 0, 0) (vc_duration video_clip);
            offset = min (offset self) (int video_height - 10);
            moved_clip = VideoLayer video_clip (0, offset);
            clips = [background, moved_clip]
        in case add_overlay L 1 video_width (vc_duration video_clip) (header_img1_path self)
                  (header_img1_x self) (header_img1_y self) (header_img1_scale self) clips of
             (clips1, log1) \<Rightarrow>
           case add_overlay L 2 video_width (vc_duration video_clip) (header_img2_path self)
                  (header_img2_x self) (header_img2_y self) (header_img2_scale self) clips1 of
             (clips2, log2) \<Rightarrow> (clips2, log1 @ log2))"

definition output_file_of :: "lib \<Rightarrow> string \<Rightarrow> string \<Rightarrow> string" where
  \<comment> \<open>lines 300-302\<close>
  "output_file_of L out_dir video_path =
     (let base_name = path_basename L video_path
      in case path_splitext L base_name of (name, ext) \<Rightarrow>
           path_join L out_dir (name @ ''_processed'' @ ext))"

definition write_call_for :: "lib \<Rightarrow> processor \<Rightarrow> string \<Rightarrow> video_clip \<Rightarrow> string \<Rightarrow> write_call" where
  \<comment> \<open>lines 297-316: the composite and the arguments of \<^verbatim>\<open>write_videofile\<close>\<close>
  "write_call_for L self out_dir video_clip video_path =
     \<lparr>wc_clips = fst (build_clips L self video_clip),
      wc_size = vc_size video_clip,
      wc_filename = output_file_of L out_dir video_path,
      wc_codec = ''libx264'',
      wc_audio_codec = ''aac'',
      wc_temp_audiofile = path_join L out_dir ''temp-audio.m4a'',
      wc_remove_temp = True,
      wc_fps = vc_fps video_clip,
      wc_threads = 4,
      wc_preset = ''medium''\<rparr>"

definition process_item :: "lib \<Rightarrow> processor \<Rightarrow> string \<Rightarrow> nat \<Rightarrow> nat \<Rightarrow> string \<Rightarrow> event list" where
  \<comment> \<open>the \<^verbatim>\<open>try\<close> of lines 240-326 for the item \<open>idx\<close>: an exception of
      \<^verbatim>\<open>VideoFileClip\<close> or of \<^verbatim>\<open>write_videofile\<close> ends the item in the handler of line 324\<close>
  "process_item L self out_dir total_files idx video_path =
     [progress_updated (py_progress idx total_files),
      error_occurred (ProcessingVideo (idx + 1) total_files (path_basename L video_path))] @
     (case VideoFileClip L video_path of
        Inl e \<Rightarrow> [error_occurred (VideoError (path_basename L video_path) e)]
      | Inr video_clip \<Rightarrow>
          (let call = write_call_for L self out_dir video_clip video_path
           in [error_occurred (VideoSize (vc_size video_clip))] @
              map error_occurred (snd (build_clips L self video_clip)) @
              [error_occurred (Writing (path_basename L (wc_filename call))),
               write_videofile call] @
              (case write_result L call of
                 Some e \<Rightarrow> [error_occurred (VideoError (path_basename L video_path) e)]
               | None \<Rightarrow> [error_occurred (VideoDone (path_basename L (wc_filename call)))])))"

fun process_loop ::
  "lib \<Rightarrow> (nat \<Rightarrow> bool) \<Rightarrow> processor \<Rightarrow> string \<Rightarrow> nat \<Rightarrow> nat \<Rightarrow> string list \<Rightarrow> event list \<times> bool" where
  \<comment> \<open>the loop of line 235 from index \<open>idx\<close> on. \<open>stopped idx\<close> is what \<^verbatim>\<open>self.stopped()\<close>
      answers at the poll before item \<open>idx\<close>: the flag is set by another thread. The
      second component tells that the loop returned at line 238.\<close>
  "process_loop L stopped self out_dir total_files idx [] = ([], False)"
| "process_loop L stopped self out_dir total_files idx (video_path # rest) =
     (if stopped idx then ([error_occurred UserInterrupt], True)
      else (case process_loop L stopped self out_dir total_files (Suc idx) rest of
              (evs, cancelled) \<Rightarrow>
                (process_item L self out_dir total_files idx video_path @ evs, cancelled)))"

definition process_videos :: "lib \<Rightarrow> (nat \<Rightarrow> bool) \<Rightarrow> processor \<Rightarrow> event list" where
  "process_videos L stopped self =
     (if video_files self = [] then [error_occurred NoVideoFiles]
      else (case output_dir self of
              None \<Rightarrow> [error_occurred NoOutputDir]
            | Some out_dir \<Rightarrow>
                if out_dir = [] then [error_occurred NoOutputDir]
                else (let total_files = length (video_files self)
                      in case process_loop L stopped self out_dir total_files 0 (video_files self) of
                           (evs, cancelled) \<Rightarrow>
                             if cancelled then evs
                             else evs @ [progress_updated 100, processing_finished total_files])))"

definition run :: "lib \<Rightarrow> (nat \<Rightarrow> bool) \<Rightarrow> processor \<Rightarrow> event list" where
  \<comment> \<open>lines 69-78\<close>
  "run L stopped self =
     (if preview_only self then process_preview L self else process_videos L stopped self)"

definition is_write :: "event \<Rightarrow> bool" where
  "is_write ev = (case ev of write_videofile c \<Rightarrow> True | _ \<Rightarrow> False)"

definition is_preview :: "event \<Rightarrow> bool" where
  "is_preview ev = (case ev of preview_frame_ready f \<Rightarrow> True | _ \<Rightarrow> False)"

definition is_progress :: "event \<Rightarrow> bool" where
  "is_progress ev = (case ev of progress_updated n \<Rightarrow> True | _ \<Rightarrow> False)"

definition is_finished :: "event \<Rightarrow> bool" where
  "is_finished ev = (case ev of processing_finished n \<Rightarrow> True | _ \<Rightarrow> False)"

section \<open>A concrete environment\<close>

text \<open>
  An instance of the libraries to run the model on: \<^verbatim>\<open>os.path\<close> for POSIX paths, a
  video of 20 x 12 pixels, two image files, and a resize by nearest neighbour in the
  place of the resampling of moviepy and OpenCV.
\<close>

definition posix_basename :: "string \<Rightarrow> string" where
  "posix_basename p = rev (takeWhile (\<lambda>c. c \<noteq> CHR ''/'') (rev p))"

definition posix_splitext :: "string \<Rightarrow> string \<times> string" where
  \<comment> \<open>for a name without directories: the extension starts at the last dot, unless only dots
      come before it\<close>
  "posix_splitext p =
     (let e = takeWhile (\<lambda>c. c \<noteq> CHR ''.'') (rev p);
          stem = rev (drop (length e + 1) (rev p))
      in if CHR ''.'' \<in> set p \<and> (\<exists>c \<in> set stem. c \<noteq> CHR ''.'')
         then (stem, CHR ''.'' # rev e) else (p, []))"

definition posix_join :: "string \<Rightarrow> string \<Rightarrow> string" where
  "posix_join a b =
     (if b \<noteq> [] \<and> hd b = CHR ''/'' then b
      else if a = [] \<or> last a = CHR ''/'' then a @ b
      else a @ ''/'' @ b)"

definition nn_resize :: "ndarray \<Rightarrow> nat \<times> nat \<Rightarrow> ndarray" where
  "nn_resize a sz =
     (case (shape a, sz) of ((h0, w0, ch), (w, h)) \<Rightarrow>
        \<lparr>shape = (h, w, ch), elem = (\<lambda>r c k. elem a (r * h0 div h) (c * w0 div w) k)\<rparr>)"

definition demo_clip :: video_clip where
  "demo_clip = \<lparr>vc_size = (20, 12), vc_duration = 3, vc_fps = 25\<rparr>"

definition demo_frame :: ndarray where
  "demo_frame = \<lparr>shape = (12, 20, 3), elem = (\<lambda>r c k. word_of_nat (10 * r + c + k))\<rparr>"

definition demo_rgb :: ndarray where
  \<comment> \<open>an opaque bitmap, 2 rows of 8 pixels\<close>
  "demo_rgb = \<lparr>shape = (2, 8, 3), elem = (\<lambda>r c k. word_of_nat (100 + 10 * c + r))\<rparr>"

definition demo_rgba :: ndarray where
  \<comment> \<open>a bitmap with an alpha channel, 2 rows of 4 pixels: colour 200, alpha 0, 128, 255, 64
      along a row\<close>
  "demo_rgba = \<lparr>shape = (2, 4, 4),
     elem = (\<lambda>r c k. if k = 3 then (if c = 0 then 0 else if c = 1 then 128 else if c = 2 then 255 else 64)
                      else 200)\<rparr>"

definition demo_lib :: lib where
  "demo_lib =
     \<lparr>path_exists = (\<lambda>p. p \<in> {''/in/a.mp4'', ''/in/b.wmv'', ''/in/bad.mp4'', ''/img/rgb.png'', ''/img/rgba.png'', ''/img/broken.png''}),
      path_basename = posix_basename,
      path_splitext = posix_splitext,
      path_join = posix_join,
      VideoFileClip = (\<lambda>p. if p = ''/in/a.mp4'' \<or> p = ''/in/b.wmv'' then Inr demo_clip
                            else Inl (LibraryError ''cannot open'')),
      get_frame = (\<lambda>clip t. Inr demo_frame),
      ImageClip = (\<lambda>p. if p = ''/img/rgb.png'' then Inr \<lparr>ic_size = (8, 2), ic_frame = demo_rgb\<rparr>
                        else if p = ''/img/rgba.png'' then Inr \<lparr>ic_size = (4, 2), ic_frame = demo_rgba\<rparr>
                        else Inl (LibraryError ''cannot read'')),
      resize_width = (\<lambda>clip video_width scale. Inr clip),
      cv2_resize = (\<lambda>img sz. Inr (nn_resize img sz)),
      write_result = (\<lambda>call. None)\<rparr>"

definition demo_self :: processor where
  "demo_self =
     \<lparr>video_files = [''/in/a.mp4'', ''/in/bad.mp4'', ''/in/b.wmv''],
      offset = 1,
      header_img1_path = Some ''/img/rgb.png'',
      header_img1_x = 16, header_img1_y = 0, header_img1_scale = 1 / 10,
      header_img2_path = Some ''/img/rgba.png'',
      header_img2_x = 0, header_img2_y = 5, header_img2_scale = 1 / 10,
      preview_only = False,
      output_dir = Some ''/out''\<rparr>"

text \<open>
  A second video, 16 x 8 pixels: lower than the ten rows that line 118 subtracts.
\<close>

definition small_clip :: video_clip where
  "small_clip = \<lparr>vc_size = (16, 8), vc_duration = 3, vc_fps = 25\<rparr>"

definition small_frame :: ndarray where
  "small_frame = \<lparr>shape = (8, 16, 3), elem = (\<lambda>r c k. word_of_nat (10 * r + c + k))\<rparr>"

definition small_lib :: lib where
  "small_lib = demo_lib\<lparr>VideoFileClip := (\<lambda>p. Inr small_clip),
                         get_frame := (\<lambda>clip t. Inr small_frame)\<rparr>"

definition small_self :: processor where
  "small_self =
     \<lparr>video_files = [''/in/s.mp4''],
      offset = 0,
      header_img1_path = None,
      header_img1_x = 0, header_img1_y = 0, header_img1_scale = 1 / 10,
      header_img2_path = None,
      header_img2_x = 0, header_img2_y = 0, header_img2_scale = 1 / 10,
      preview_only = True,
      output_dir = Some ''/out''\<rparr>"

text \<open>
  One pixel of colour 3 in every channel, and a bitmap of one pixel of the same colour
  with alpha 5.
\<close>

definition grey_frame :: ndarray where
  "grey_frame = \<lparr>shape = (1, 1, 3), elem = (\<lambda>r c k. 3)\<rparr>"

definition grey_rgba :: ndarray where
  "grey_rgba = \<lparr>shape = (1, 1, 4), elem = (\<lambda>r c k. if k = 3 then 5 else 3)\<rparr>"

section \<open>Properties of the vertical shift\<close>

lemma slice_bound_nonneg: "0 \<le> i \<Longrightarrow> slice_bound i n = min (nat i) n"
  by (simp add: slice_bound_def)

text \<open>
  From height 10 on, the shift does what the comment of line 118 says. For a source frame of
  height \<open>H \<ge> 10\<close> and width \<open>W\<close> and an offset \<open>o \<ge> 0\<close>, with \<open>o' = min o (H - 10)\<close>:
  the shift returns a frame of the same dimensions, rows \<open>[0, o')\<close> are black, and rows
  \<open>[o', H)\<close> equal rows \<open>[0, H - o')\<close> of the source.
\<close>

theorem shift_frame_rows:
  assumes "shape frame = (H, W, 3)" and "10 \<le> H" and "0 \<le> ofs"
  shows "\<exists>out. shift_frame W H ofs frame = Inr out \<and> shape out = (H, W, 3) \<and>
           (\<forall>r c k. r < nat (min ofs (int H - 10)) \<longrightarrow> elem out r c k = 0) \<and>
           (\<forall>r c k. nat (min ofs (int H - 10)) \<le> r \<and> r < H \<and> c < W \<and> k < 3 \<longrightarrow>
                elem out r c k = elem frame (r - nat (min ofs (int H - 10))) c k)"
proof -
  define o' where "o' = nat (min ofs (int H - 10))"
  have offeq: "min ofs (int H - 10) = int o'" and le: "o' + 10 \<le> H"
    using assms by (auto simp: o'_def)
  have start: "slice_bound (int o') H = o'"
    using le by (simp add: slice_bound_def)
  have stop: "slice_bound (int H - int o') H = H - o'"
    using le by (simp add: slice_bound_def)
  have ok: "bcast_ok (H - o') (H - o')" "bcast_ok W W" "bcast_ok 3 3"
    by (simp_all add: bcast_ok_def)
  have ne1: "H - o' \<noteq> 1"
    using le by simp
  show ?thesis
    unfolding o'_def [symmetric]
    using ok ne1 le
    by (auto simp: shift_frame_def Let_def assms(1) offeq start stop np_assign_def
        np_zeros_def np_zeros_like_def bview_def bidx_def)
qed

text \<open>
  The example of the specification: a black 100 x 100 frame with one white pixel in row 50,
  column 50, shifted by 10, has the white pixel in row 60 and black in rows 0 to 9 and at
  the old place.
\<close>

theorem shift_frame_rows_witness:
  "shape \<lparr>shape = (100, 100, 3), elem = (\<lambda>r c k. if r = 50 \<and> c = 50 then 255 else 0)\<rparr> = (100, 100, 3)
   \<and> (10::nat) \<le> 100 \<and> (0::int) \<le> 10
   \<and> (\<exists>out. shift_frame 100 100 10
          \<lparr>shape = (100, 100, 3), elem = (\<lambda>r c k. if r = 50 \<and> c = 50 then 255 else 0)\<rparr> = Inr out
        \<and> shape out = (100, 100, 3)
        \<and> elem out 60 50 0 = 255 \<and> elem out 50 50 0 = 0 \<and> elem out 9 50 0 = 0 \<and> elem out 0 0 2 = 0)"
proof -
  let ?f = "\<lparr>shape = (100, 100, 3), elem = (\<lambda>r c k. if r = 50 \<and> c = 50 then 255 else (0::uint8))\<rparr>"
  have h1: "shape ?f = (100, 100, 3)" by simp
  have h2: "(10::nat) \<le> 100" by simp
  have h3: "(0::int) \<le> 10" by simp
  from shift_frame_rows [OF h1 h2 h3]
  obtain out where out: "shift_frame 100 100 10 ?f = Inr out" "shape out = (100, 100, 3)"
    and black: "\<And>r c k. r < nat (min 10 (int 100 - 10)) \<Longrightarrow> elem out r c k = 0"
    and moved: "\<And>r c k. nat (min 10 (int 100 - 10)) \<le> r \<and> r < 100 \<and> c < 100 \<and> k < 3 \<Longrightarrow>
                  elem out r c k = elem ?f (r - nat (min 10 (int 100 - 10))) c k"
    by blast
  have "elem out 60 50 0 = 255" using moved [of 60 50 0] by simp
  moreover have "elem out 50 50 0 = 0" using moved [of 50 50 0] by simp
  moreover have "elem out 9 50 0 = 0" using black [of 9 50 0] by simp
  moreover have "elem out 0 0 2 = 0" using black [of 0 0 2] by simp
  ultimately show ?thesis using out by simp
qed

text \<open>
  Below height 10 the clamped offset \<open>H - 10\<close> is negative, and the two slices of line 120
  count it from different ends. For heights 6 to 9 the slice \<^verbatim>\<open>moved_frame[H-10:]\<close> has
  \<open>10 - H\<close> rows and the slice \<^verbatim>\<open>frame[:10]\<close> has \<open>H\<close>: the assignment raises ValueError
  for every offset.
\<close>

lemma shift_frame_raises:
  assumes "shape frame = (H, W, 3)" and "6 \<le> H" and "H \<le> 9" and "0 \<le> ofs"
  shows "shift_frame W H ofs frame = Inl ValueError"
proof -
  have offeq: "min ofs (int H - 10) = int H - 10"
    using assms by simp
  have start: "slice_bound (int H - 10) H = 2 * H - 10"
    using assms by (simp add: slice_bound_def)
  have stop: "slice_bound 10 H = H"
    using assms by (simp add: slice_bound_def)
  have "\<not> bcast_ok H (H - (2 * H - 10))"
    using assms by (simp add: bcast_ok_def)
  then show ?thesis
    by (simp add: shift_frame_def Let_def assms(1) offeq start stop np_assign_def
        np_zeros_def np_zeros_like_def)
qed


text \<open>
  For heights up to 5 both slices are the whole frame: the source is copied unshifted, and
  the offset is ignored.
\<close>

lemma shift_frame_unshifted:
  assumes "shape frame = (H, W, 3)" and "H \<le> 5" and "0 \<le> ofs"
  shows "\<exists>out. shift_frame W H ofs frame = Inr out \<and> shape out = (H, W, 3) \<and>
           (\<forall>r c k. r < H \<and> c < W \<and> k < 3 \<longrightarrow> elem out r c k = elem frame r c k)"
proof -
  have offeq: "min ofs (int H - 10) = int H - 10"
    using assms by simp
  have start: "slice_bound (int H - 10) H = 0"
    using assms by (simp add: slice_bound_def)
  have stop: "slice_bound 10 H = H"
    using assms by (simp add: slice_bound_def)
  show ?thesis
    by (auto simp: shift_frame_def Let_def assms(1) offeq start stop np_assign_def
        np_zeros_def np_zeros_like_def bview_def bidx_def bcast_ok_def)
qed


text \<open>
  C1. The claim is that for every source frame of height \<open>H\<close> and every offset \<open>o \<ge> 0\<close> the
  preview produces a frame of the dimensions of the source, black in rows \<open>[0, o')\<close> and
  holding rows \<open>[0, H - o')\<close> of the source from row \<open>o'\<close> on, where \<open>o' = min o (H - 10)\<close>.
  The code does not do this for a video of 16 x 8 pixels and offset 0: line 120 raises
  ValueError, the exception ends the preview in the handler of line 218, and no frame is
  emitted. The export places the same video at \<open>(0, -2)\<close> (lines 260-261) and does not fail.
\<close>

theorem preview_height8_raises:
  "shift_frame 16 8 0 small_frame = Inl ValueError
   \<and> process_preview small_lib small_self =
       [error_occurred (VideoLoaded ''s.mp4''), error_occurred (VideoSize (16, 8)),
        error_occurred (PreviewError ValueError)]
   \<and> fst (build_clips small_lib small_self small_clip) =
       [ColorLayer (16, 8) (0, 0, 0) 3, VideoLayer small_clip (0, - 2)]"
proof -
  have s: "shift_frame 16 8 0 small_frame = Inl ValueError"
    by (simp add: shift_frame_def Let_def np_assign_def np_zeros_def np_zeros_like_def
        slice_bound_def bcast_ok_def small_frame_def)
  have p: "process_preview small_lib small_self =
       [error_occurred (VideoLoaded ''s.mp4''), error_occurred (VideoSize (16, 8)),
        error_occurred (PreviewError ValueError)]"
    by (simp add: process_preview_def small_lib_def small_self_def demo_lib_def small_clip_def
        s posix_basename_def)
  have b: "fst (build_clips small_lib small_self small_clip) =
       [ColorLayer (16, 8) (0, 0, 0) 3, VideoLayer small_clip (0, - 2)]"
    by (simp add: build_clips_def add_overlay_def small_self_def small_clip_def Let_def)
  from s p b show ?thesis by simp
qed

section \<open>Properties of the overlays of the preview\<close>

lemma np_assign_Inr:
  assumes "np_assign a (r0, r1) (c0, c1) (k0, k1) sshape src = Inr b"
  shows "shape b = shape a"
    and "\<And>r c k. \<not> (r0 \<le> r \<and> r < r1 \<and> c0 \<le> c \<and> c < c1 \<and> k0 \<le> k \<and> k < k1) \<Longrightarrow> elem b r c k = elem a r c k"
    and "\<And>r c k. r0 \<le> r \<and> r < r1 \<and> c0 \<le> c \<and> c < c1 \<and> k0 \<le> k \<and> k < k1 \<Longrightarrow> elem b r c k = src (r - r0) (c - c0) (k - k0)"
  using assms by (auto simp: np_assign_def split: prod.splits if_splits)

lemma blend_channel_Inr:
  assumes "blend_channel img (r0, r1) (c0, c1) ch a = Inr b"
  shows "shape b = shape a"
    and "\<And>r c k. \<not> (r0 \<le> r \<and> r < r1 \<and> c0 \<le> c \<and> c < c1) \<Longrightarrow> elem b r c k = elem a r c k"
  using assms by (auto simp: blend_channel_def np_assign_def split: prod.splits if_splits)

lemma blend_loop_outside:
  assumes "blend_loop img (r0, r1) (c0, c1) cs a = (b, err)"
  shows "shape b = shape a \<and>
         (\<forall>r c k. \<not> (r0 \<le> r \<and> r < r1 \<and> c0 \<le> c \<and> c < c1) \<longrightarrow> elem b r c k = elem a r c k)"
  using assms
proof (induction cs arbitrary: a)
  case Nil
  then show ?case by simp
next
  case (Cons ch cs)
  show ?case
  proof (cases "blend_channel img (r0, r1) (c0, c1) ch a")
    case (Inl e)
    with Cons.prems show ?thesis by simp
  next
    case (Inr a')
    with Cons.prems have "blend_loop img (r0, r1) (c0, c1) cs a' = (b, err)" by simp
    from Cons.IH [OF this] blend_channel_Inr [OF Inr] show ?thesis by simp
  qed
qed

lemma composite_outside:
  assumes "composite img x_pos y_pos img_w img_h a = (b, err)"
    and "frame_rows a y_pos img_h = (r0, r1)" and "frame_cols a x_pos img_w = (c0, c1)"
  shows "shape b = shape a \<and>
         (\<forall>r c k. \<not> (r0 \<le> r \<and> r < r1 \<and> c0 \<le> c \<and> c < c1) \<longrightarrow> elem b r c k = elem a r c k)"
proof (cases "shape img")
  case (fields rh rw rc)
  show ?thesis
  proof (cases "rc = 4")
    case True
    with assms fields have "blend_loop img (r0, r1) (c0, c1) [0, 1, 2] a = (b, err)"
      by (simp add: composite_def Let_def)
    from blend_loop_outside [OF this] show ?thesis .
  next
    case False
    show ?thesis
    proof (cases "np_assign a (r0, r1) (c0, c1) (0, 3) (rh, rw, min rc 3) (bview (rh, rw, min rc 3) (elem img))")
      case (Inl e)
      with assms fields False show ?thesis by (simp add: composite_def Let_def)
    next
      case (Inr a')
      with assms fields False have "b = a'" by (simp add: composite_def Let_def)
      with np_assign_Inr(1,2) [OF Inr] show ?thesis by auto
    qed
  qed
qed

lemma slice_bound_in: "0 \<le> i \<Longrightarrow> i \<le> int n \<Longrightarrow> slice_bound i n = nat i"
  by (simp add: slice_bound_def min_def nat_le_iff)

lemma clamp_rect_props:
  assumes "clamp_rect W H x y w h = (x_pos, y_pos, img_w, img_h)"
  shows "x_pos = max 0 x" "y_pos = max 0 y" "img_w \<le> int w" "img_h \<le> int h"
    "x_pos + img_w \<le> int W" "y_pos + img_h \<le> int H"
    "img_w = min (int w) (int W - x_pos)" "img_h = min (int h) (int H - y_pos)"
  using assms by (auto simp: clamp_rect_def Let_def split: if_splits)

text \<open>
  C2. Overlay placement clamping is safe. For an overlay at \<open>(x, y)\<close> whose resized bitmap
  is \<open>w\<close> x \<open>h\<close>, over a frame of \<open>W\<close> x \<open>H\<close>: negative \<open>x\<close> and \<open>y\<close> become 0; the width and
  the height are not enlarged, and the rectangle \<open>[x_pos, x_pos + img_w)\<close> x
  \<open>[y_pos, y_pos + img_h)\<close> ends inside the frame; whatever the libraries return, the frame
  keeps its shape, no element outside the rectangle changes, and none outside
  \<open>[0, W)\<close> x \<open>[0, H)\<close>; and when the clamped width or height is not positive, the frame is
  returned as it was and no exception is raised.
\<close>

theorem overlay_clamp_safe:
  assumes fr: "shape moved_frame = (H, W, 3)"
      and im: "shape img_array = (h, w, ch)"
      and cl: "clamp_rect W H x y w h = (x_pos, y_pos, img_w, img_h)"
      and pl: "place_overlay L W H img_array x y moved_frame = (out, err)"
  shows "x_pos = max 0 x \<and> y_pos = max 0 y \<and> img_w \<le> int w \<and> img_h \<le> int h
       \<and> x_pos + img_w \<le> int W \<and> y_pos + img_h \<le> int H
       \<and> shape out = (H, W, 3)
       \<and> (\<forall>r c k. \<not> (y_pos \<le> int r \<and> int r < y_pos + img_h \<and> x_pos \<le> int c \<and> int c < x_pos + img_w)
                  \<longrightarrow> elem out r c k = elem moved_frame r c k)
       \<and> (\<forall>r c k. H \<le> r \<or> W \<le> c \<longrightarrow> elem out r c k = elem moved_frame r c k)
       \<and> (img_w \<le> 0 \<or> img_h \<le> 0 \<longrightarrow> out = moved_frame \<and> err = None)"
proof -
  note cp = clamp_rect_props [OF cl]
  have geom: "x_pos = max 0 x \<and> y_pos = max 0 y \<and> img_w \<le> int w \<and> img_h \<le> int h
       \<and> x_pos + img_w \<le> int W \<and> y_pos + img_h \<le> int H"
    using cp by simp
  have skip: "img_w \<le> 0 \<or> img_h \<le> 0 \<longrightarrow> out = moved_frame \<and> err = None"
    using pl by (auto simp: place_overlay_def im cl)
  have outside: "shape out = (H, W, 3)
       \<and> (\<forall>r c k. \<not> (y_pos \<le> int r \<and> int r < y_pos + img_h \<and> x_pos \<le> int c \<and> int c < x_pos + img_w)
                  \<longrightarrow> elem out r c k = elem moved_frame r c k)"
  proof (cases "img_w > 0 \<and> img_h > 0")
    case False
    with skip fr show ?thesis by auto
  next
    case drawn: True
    show ?thesis
    proof (cases "cv2_resize L img_array (nat img_w, nat img_h)")
      case (Inl e)
      with pl drawn fr show ?thesis by (simp add: place_overlay_def im cl)
    next
      case (Inr img_resized)
      with pl drawn have co: "composite img_resized x_pos y_pos img_w img_h moved_frame = (out, err)"
        by (simp add: place_overlay_def im cl)
      have ypos: "0 \<le> y_pos" and xpos: "0 \<le> x_pos" using cp(1,2) by simp_all
      have yin: "y_pos \<le> int H" "0 \<le> y_pos + img_h" and xin: "x_pos \<le> int W" "0 \<le> x_pos + img_w"
        using cp(5,6) drawn ypos xpos by linarith+
      have rows: "frame_rows moved_frame y_pos img_h = (nat y_pos, nat (y_pos + img_h))"
        by (simp add: frame_rows_def fr slice_bound_in ypos yin cp(6))
      have cols: "frame_cols moved_frame x_pos img_w = (nat x_pos, nat (x_pos + img_w))"
        by (simp add: frame_cols_def fr slice_bound_in xpos xin cp(5))
      have eqr: "\<And>r. (nat y_pos \<le> r \<and> r < nat (y_pos + img_h)) = (y_pos \<le> int r \<and> int r < y_pos + img_h)"
        using ypos by linarith
      have eqc: "\<And>c. (nat x_pos \<le> c \<and> c < nat (x_pos + img_w)) = (x_pos \<le> int c \<and> int c < x_pos + img_w)"
        using xpos by linarith
      from composite_outside [OF co rows cols] have sh: "shape out = shape moved_frame"
        and un: "\<And>r c k. \<not> ((nat y_pos \<le> r \<and> r < nat (y_pos + img_h)) \<and> (nat x_pos \<le> c \<and> c < nat (x_pos + img_w)))
                   \<Longrightarrow> elem out r c k = elem moved_frame r c k"
        by simp_all
      show ?thesis
        using sh fr un unfolding eqr eqc by simp
    qed
  qed
  have beyond: "\<forall>r c k. H \<le> r \<or> W \<le> c \<longrightarrow> elem out r c k = elem moved_frame r c k"
    using outside geom by auto
  from geom skip outside beyond show ?thesis by blast
qed

text \<open>
  On the 20 x 12 frame: the bitmap of 8 x 2 pixels put at column 16 is cut to 4 columns and
  changes nothing to the left of column 16, below row 1, or beyond the frame; put at
  column 25 it is not drawn at all.
\<close>

theorem overlay_clamp_safe_witness:
  "shape demo_frame = (12, 20, 3) \<and> shape demo_rgb = (2, 8, 3)
   \<and> clamp_rect 20 12 16 0 8 2 = (16, 0, 4, 2)
   \<and> clamp_rect 20 12 25 0 8 2 = (25, 0, - 5, 2)
   \<and> shape (fst (place_overlay demo_lib 20 12 demo_rgb 16 0 demo_frame)) = (12, 20, 3)
   \<and> elem (fst (place_overlay demo_lib 20 12 demo_rgb 16 0 demo_frame)) 0 15 0 = elem demo_frame 0 15 0
   \<and> elem (fst (place_overlay demo_lib 20 12 demo_rgb 16 0 demo_frame)) 2 16 1 = elem demo_frame 2 16 1
   \<and> elem (fst (place_overlay demo_lib 20 12 demo_rgb 16 0 demo_frame)) 0 20 0 = elem demo_frame 0 20 0
   \<and> place_overlay demo_lib 20 12 demo_rgb 25 0 demo_frame = (demo_frame, None)"
proof -
  have h1: "shape demo_frame = (12, 20, 3)" by (simp add: demo_frame_def)
  have h2: "shape demo_rgb = (2, 8, 3)" by (simp add: demo_rgb_def)
  have h3: "clamp_rect 20 12 16 0 8 2 = (16, 0, 4, 2)" by (simp add: clamp_rect_def)
  have h3': "clamp_rect 20 12 25 0 8 2 = (25, 0, - 5, 2)" by (simp add: clamp_rect_def)
  obtain out err where h4: "place_overlay demo_lib 20 12 demo_rgb 16 0 demo_frame = (out, err)"
    by (cases "place_overlay demo_lib 20 12 demo_rgb 16 0 demo_frame")
  obtain out' err' where h4': "place_overlay demo_lib 20 12 demo_rgb 25 0 demo_frame = (out', err')"
    by (cases "place_overlay demo_lib 20 12 demo_rgb 25 0 demo_frame")
  from overlay_clamp_safe [OF h1 h2 h3 h4]
  have sh: "shape out = (12, 20, 3)"
    and un: "\<And>r c k. \<not> (0 \<le> int r \<and> int r < 0 + 2 \<and> 16 \<le> int c \<and> int c < 16 + 4)
                \<Longrightarrow> elem out r c k = elem demo_frame r c k"
    and be: "\<And>r c k. 12 \<le> r \<or> 20 \<le> c \<Longrightarrow> elem out r c k = elem demo_frame r c k"
    by blast+
  from overlay_clamp_safe [OF h1 h2 h3' h4']
  have sk: "out' = demo_frame \<and> err' = None" by simp
  have "elem out 0 15 0 = elem demo_frame 0 15 0" using un [of 0 15 0] by simp
  moreover have "elem out 2 16 1 = elem demo_frame 2 16 1" using un [of 2 16 1] by simp
  moreover have "elem out 0 20 0 = elem demo_frame 0 20 0" using be [of 0 20 0] by simp
  ultimately show ?thesis using h1 h2 h3 h3' sh sk by (simp add: h4 h4')
qed

section \<open>Properties of the preview\<close>

lemma overlay_block_skip:
  assumes "path = None \<or> path = Some [] \<or> (\<exists>p. path = Some p \<and> \<not> path_exists L p)"
  shows "overlay_block L n W H path x y scale moved_frame = (moved_frame, [])"
  using assms by (auto simp: overlay_block_def)

text \<open>
  C4. No-op overlay identity. An overlay whose path is missing (\<^verbatim>\<open>None\<close> or empty) or names
  a file that does not exist is skipped: its block returns the frame as it was and reports
  nothing, so no failure; the preview of the run is the preview of the run with that
  overlay absent, for overlay 1 and for overlay 2; and with both overlays so, the frame
  emitted is the result of the shift alone.
\<close>

theorem missing_overlay_identity:
  assumes "path = None \<or> path = Some [] \<or> (\<exists>p. path = Some p \<and> \<not> path_exists L p)"
  shows "overlay_block L n W H path x y scale moved_frame = (moved_frame, [])
       \<and> process_preview L (self\<lparr>header_img1_path := path\<rparr>)
           = process_preview L (self\<lparr>header_img1_path := None\<rparr>)
       \<and> process_preview L (self\<lparr>header_img2_path := path\<rparr>)
           = process_preview L (self\<lparr>header_img2_path := None\<rparr>)
       \<and> (\<forall>video_path rest vc frame moved.
             video_files self = video_path # rest \<and> VideoFileClip L video_path = Inr vc
             \<and> get_frame L vc (min 1 (vc_duration vc / 2)) = Inr frame
             \<and> shift_frame (fst (vc_size vc)) (snd (vc_size vc)) (offset self) frame = Inr moved
             \<longrightarrow> process_preview L (self\<lparr>header_img1_path := path, header_img2_path := path\<rparr>)
                 = [error_occurred (VideoLoaded (path_basename L video_path)),
                    error_occurred (VideoSize (vc_size vc)),
                    preview_frame_ready moved])"
proof -
  note sk = overlay_block_skip [OF assms]
  have sk0: "\<And>L n W H x y scale moved_frame.
      overlay_block L n W H None x y scale moved_frame = (moved_frame, [])"
    by (simp add: overlay_block_def)
  have a: "process_preview L (self\<lparr>header_img1_path := path\<rparr>)
           = process_preview L (self\<lparr>header_img1_path := None\<rparr>)"
    by (simp add: process_preview_def sk sk0 split: list.split sum.split prod.split)
  have b: "process_preview L (self\<lparr>header_img2_path := path\<rparr>)
           = process_preview L (self\<lparr>header_img2_path := None\<rparr>)"
    by (simp add: process_preview_def sk sk0 split: list.split sum.split prod.split)
  have c: "\<forall>video_path rest vc frame moved.
             video_files self = video_path # rest \<and> VideoFileClip L video_path = Inr vc
             \<and> get_frame L vc (min 1 (vc_duration vc / 2)) = Inr frame
             \<and> shift_frame (fst (vc_size vc)) (snd (vc_size vc)) (offset self) frame = Inr moved
             \<longrightarrow> process_preview L (self\<lparr>header_img1_path := path, header_img2_path := path\<rparr>)
                 = [error_occurred (VideoLoaded (path_basename L video_path)),
                    error_occurred (VideoSize (vc_size vc)),
                    preview_frame_ready moved]"
    by (auto simp: process_preview_def sk split: prod.splits)
  from sk a b c show ?thesis by blast
qed

text \<open>
  On the 20 x 12 video, with a path that names no file.
\<close>

theorem missing_overlay_identity_witness:
  "\<not> path_exists demo_lib ''/img/none.png''
   \<and> overlay_block demo_lib 1 20 12 (Some ''/img/none.png'') 0 0 1 demo_frame = (demo_frame, [])
   \<and> process_preview demo_lib (demo_self\<lparr>header_img1_path := Some ''/img/none.png''\<rparr>)
       = process_preview demo_lib (demo_self\<lparr>header_img1_path := None\<rparr>)
   \<and> process_preview demo_lib (demo_self\<lparr>header_img2_path := Some ''/img/none.png''\<rparr>)
       = process_preview demo_lib (demo_self\<lparr>header_img2_path := None\<rparr>)
   \<and> (\<exists>moved. shift_frame 20 12 1 demo_frame = Inr moved
         \<and> process_preview demo_lib (demo_self\<lparr>header_img1_path := Some ''/img/none.png'',
                                                header_img2_path := Some ''/img/none.png''\<rparr>)
             = [error_occurred (VideoLoaded ''a.mp4''), error_occurred (VideoSize (20, 12)),
                preview_frame_ready moved])"
proof -
  have ne: "\<not> path_exists demo_lib ''/img/none.png''"
    by (simp add: demo_lib_def)
  then have hyp: "Some ''/img/none.png'' = None \<or> Some ''/img/none.png'' = Some []
      \<or> (\<exists>p. Some ''/img/none.png'' = Some p \<and> \<not> path_exists demo_lib p)"
    by simp
  note th = missing_overlay_identity
    [of "Some ''/img/none.png''" demo_lib 1 20 12 0 0 1 demo_frame demo_self, OF hyp]
  obtain moved where mv: "shift_frame 20 12 1 demo_frame = Inr moved"
    using shift_frame_rows [of demo_frame 12 20 1] by (auto simp: demo_frame_def)
  from th have "\<And>video_path rest vc frame moved.
      video_files demo_self = video_path # rest \<and> VideoFileClip demo_lib video_path = Inr vc
      \<and> get_frame demo_lib vc (min 1 (vc_duration vc / 2)) = Inr frame
      \<and> shift_frame (fst (vc_size vc)) (snd (vc_size vc)) (offset demo_self) frame = Inr moved
      \<Longrightarrow> process_preview demo_lib (demo_self\<lparr>header_img1_path := Some ''/img/none.png'',
                                                header_img2_path := Some ''/img/none.png''\<rparr>)
          = [error_occurred (VideoLoaded (path_basename demo_lib video_path)),
             error_occurred (VideoSize (vc_size vc)), preview_frame_ready moved]"
    by blast
  from this [of "''/in/a.mp4''" "[''/in/bad.mp4'', ''/in/b.wmv'']" demo_clip demo_frame moved] mv
  have "process_preview demo_lib (demo_self\<lparr>header_img1_path := Some ''/img/none.png'',
                                                header_img2_path := Some ''/img/none.png''\<rparr>)
          = [error_occurred (VideoLoaded ''a.mp4''), error_occurred (VideoSize (20, 12)),
             preview_frame_ready moved]"
    by (simp add: demo_self_def demo_lib_def demo_clip_def posix_basename_def)
  with th ne mv show ?thesis by blast
qed

text \<open>
  The blending of one channel fails or succeeds by the shapes alone, so it fails at the
  first channel or never; a block that reports an exception has not changed the frame.
\<close>

lemma blend_channel_eq:
  assumes "shape img = (r1 - r0, c1 - c0, rc)"
  shows "blend_channel img (r0, r1) (c0, c1) ch a =
         Inr (a\<lparr>elem := (\<lambda>r c k.
                if r0 \<le> r \<and> r < r1 \<and> c0 \<le> c \<and> c < c1 \<and> k = ch
                then blend (elem a r c ch) (elem img (r - r0) (c - c0) ch) (elem img (r - r0) (c - c0) 3)
                else elem a r c k)\<rparr>)"
proof -
  have "(\<lambda>r c k. if r0 \<le> r \<and> r < r1 \<and> c0 \<le> c \<and> c < c1 \<and> ch \<le> k \<and> k < ch + 1
                then blend (elem a (r0 + (r - r0)) (c0 + (c - c0)) ch)
                       (elem img (bidx (r1 - r0) (r - r0)) (bidx (c1 - c0) (c - c0)) ch)
                       (elem img (bidx (r1 - r0) (r - r0)) (bidx (c1 - c0) (c - c0)) 3)
                else elem a r c k)
      = (\<lambda>r c k. if r0 \<le> r \<and> r < r1 \<and> c0 \<le> c \<and> c < c1 \<and> k = ch
                then blend (elem a r c ch) (elem img (r - r0) (c - c0) ch) (elem img (r - r0) (c - c0) 3)
                else elem a r c k)"
    by (intro ext) (auto simp: bidx_def)
  then show ?thesis
    by (simp add: blend_channel_def np_assign_def bcast_ok_def assms)
qed

lemma blend_channel_fails:
  assumes "shape img = (rh, rw, rc)" and "\<not> (bcast_ok rh (r1 - r0) \<and> bcast_ok rw (c1 - c0))"
  shows "blend_channel img (r0, r1) (c0, c1) ch a = Inl ValueError"
  using assms by (auto simp: blend_channel_def np_assign_def)

lemma blend_channel_succeeds:
  assumes "shape img = (rh, rw, rc)" and "bcast_ok rh (r1 - r0) \<and> bcast_ok rw (c1 - c0)"
  shows "\<exists>b. blend_channel img (r0, r1) (c0, c1) ch a = Inr b"
  using assms by (auto simp: blend_channel_def np_assign_def bcast_ok_def)

lemma blend_loop_succeeds:
  assumes "shape img = (rh, rw, rc)" and "bcast_ok rh (r1 - r0) \<and> bcast_ok rw (c1 - c0)"
  shows "snd (blend_loop img (r0, r1) (c0, c1) cs a) = None"
proof (induction cs arbitrary: a)
  case Nil
  show ?case by simp
next
  case (Cons ch cs)
  from blend_channel_succeeds [OF assms] obtain b
    where "blend_channel img (r0, r1) (c0, c1) ch a = Inr b" by blast
  with Cons.IH [of b] show ?case by simp
qed

lemma blend_loop_error:
  assumes "blend_loop img rows cols cs a = (b, Some e)"
  shows "b = a"
proof -
  obtain r0 r1 c0 c1 where rc: "rows = (r0, r1)" "cols = (c0, c1)"
    by (cases rows, cases cols) auto
  obtain rh rw rc where sh: "shape img = (rh, rw, rc)"
    by (cases "shape img")
  show ?thesis
  proof (cases "bcast_ok rh (r1 - r0) \<and> bcast_ok rw (c1 - c0)")
    case True
    from blend_loop_succeeds [OF sh True, of cs a] assms show ?thesis
      by (simp add: rc)
  next
    case False
    show ?thesis
    proof (cases cs)
      case Nil
      with assms show ?thesis by simp
    next
      case (Cons ch cs')
      with assms blend_channel_fails [OF sh False, of ch a] show ?thesis
        by (simp add: rc)
    qed
  qed
qed

lemma composite_error:
  assumes "composite img x_pos y_pos img_w img_h a = (b, Some e)"
  shows "b = a"
proof (cases "shape img")
  case (fields rh rw rc)
  show ?thesis
  proof (cases "rc = 4")
    case True
    with assms fields have "blend_loop img (frame_rows a y_pos img_h) (frame_cols a x_pos img_w)
        [0, 1, 2] a = (b, Some e)"
      by (simp add: composite_def Let_def del: blend_loop.simps)
    then show ?thesis by (rule blend_loop_error)
  next
    case False
    with assms fields show ?thesis
      by (auto simp: composite_def Let_def split: sum.splits)
  qed
qed

lemma place_overlay_error:
  assumes "place_overlay L W H img_array x y a = (b, Some e)"
  shows "b = a"
  using assms
  by (auto simp: place_overlay_def split: prod.splits if_splits sum.splits dest: composite_error)



lemma overlay_block_catches:
  assumes "p \<noteq> []" and "path_exists L p"
  shows "ImageClip L p = Inl e \<Longrightarrow>
           overlay_block L n W H (Some p) x y scale a = (a, [ImageError n e])"
    and "ImageClip L p = Inr img \<Longrightarrow> W \<noteq> 0 \<Longrightarrow> fst (ic_size img) \<noteq> 0 \<Longrightarrow>
         resize_width L img W scale = Inl e \<Longrightarrow>
           overlay_block L n W H (Some p) x y scale a = (a, [ImageError n e])"
    and "ImageClip L p = Inr img \<Longrightarrow> W \<noteq> 0 \<Longrightarrow> fst (ic_size img) \<noteq> 0 \<Longrightarrow>
         resize_width L img W scale = Inr img' \<Longrightarrow>
         place_overlay L W H (ic_frame img') x y a = (b, Some e) \<Longrightarrow>
           overlay_block L n W H (Some p) x y scale a = (a, [ImageError n e])"
proof -
  show "ImageClip L p = Inl e \<Longrightarrow>
           overlay_block L n W H (Some p) x y scale a = (a, [ImageError n e])"
    using assms by (simp add: overlay_block_def)
  show "ImageClip L p = Inr img \<Longrightarrow> W \<noteq> 0 \<Longrightarrow> fst (ic_size img) \<noteq> 0 \<Longrightarrow>
         resize_width L img W scale = Inl e \<Longrightarrow>
           overlay_block L n W H (Some p) x y scale a = (a, [ImageError n e])"
    using assms by (simp add: overlay_block_def)
  show "ImageClip L p = Inr img \<Longrightarrow> W \<noteq> 0 \<Longrightarrow> fst (ic_size img) \<noteq> 0 \<Longrightarrow>
         resize_width L img W scale = Inr img' \<Longrightarrow>
         place_overlay L W H (ic_frame img') x y a = (b, Some e) \<Longrightarrow>
           overlay_block L n W H (Some p) x y scale a = (a, [ImageError n e])"
    using assms place_overlay_error [of L W H "ic_frame img'" x y a b e]
    by (simp add: overlay_block_def)
qed



section \<open>What an overlay draws\<close>

text \<open>
  When the clamped rectangle is not empty, the bitmap composited is the one that
  \<^verbatim>\<open>cv2.resize\<close> makes of the whole bitmap of the clip; the slices of the frame are the
  rectangle. A bitmap of three channels replaces the rectangle; one of four channels is
  blended into it, channel by channel.
\<close>

lemma place_overlay_drawn:
  assumes fr: "shape moved_frame = (H, W, 3)"
      and im: "shape img_array = (h, w, ch)"
      and cl: "clamp_rect W H x y w h = (x_pos, y_pos, img_w, img_h)"
      and pos: "0 < img_w" "0 < img_h"
      and rs: "cv2_resize L img_array (nat img_w, nat img_h) = Inr img_resized"
  shows "place_overlay L W H img_array x y moved_frame
           = composite img_resized x_pos y_pos img_w img_h moved_frame"
    and "frame_rows moved_frame y_pos img_h = (nat y_pos, nat y_pos + nat img_h)"
    and "frame_cols moved_frame x_pos img_w = (nat x_pos, nat x_pos + nat img_w)"
    and "0 \<le> x_pos" and "0 \<le> y_pos"
proof -
  note cp = clamp_rect_props [OF cl]
  show ypos: "0 \<le> y_pos" and xpos: "0 \<le> x_pos" using cp(1,2) by simp_all
  have yin: "y_pos \<le> int H" "0 \<le> y_pos + img_h" and xin: "x_pos \<le> int W" "0 \<le> x_pos + img_w"
    using cp(5,6) pos ypos xpos by linarith+
  show "place_overlay L W H img_array x y moved_frame
           = composite img_resized x_pos y_pos img_w img_h moved_frame"
    using pos rs by (simp add: place_overlay_def im cl)
  have "nat (y_pos + img_h) = nat y_pos + nat img_h"
    using ypos pos by (simp add: nat_add_distrib)
  then show "frame_rows moved_frame y_pos img_h = (nat y_pos, nat y_pos + nat img_h)"
    by (simp add: frame_rows_def fr slice_bound_in ypos yin cp(6))
  have "nat (x_pos + img_w) = nat x_pos + nat img_w"
    using xpos pos by (simp add: nat_add_distrib)
  then show "frame_cols moved_frame x_pos img_w = (nat x_pos, nat x_pos + nat img_w)"
    by (simp add: frame_cols_def fr slice_bound_in xpos xin cp(5))
qed

lemma composite_rgb:
  assumes "frame_rows a y_pos img_h = (r0, r0 + rh)"
      and "frame_cols a x_pos img_w = (c0, c0 + rw)"
      and "shape img = (rh, rw, 3)"
  shows "composite img x_pos y_pos img_w img_h a =
           (a\<lparr>elem := (\<lambda>r c k.
                if r0 \<le> r \<and> r < r0 + rh \<and> c0 \<le> c \<and> c < c0 + rw \<and> k < 3
                then elem img (r - r0) (c - c0) k else elem a r c k)\<rparr>, None)"
proof -
  have "(\<lambda>r c k. if r0 \<le> r \<and> r < r0 + rh \<and> c0 \<le> c \<and> c < c0 + rw \<and> 0 \<le> k \<and> k < 3
                then bview (rh, rw, 3) (elem img) (r - r0) (c - c0) (k - 0) else elem a r c k)
      = (\<lambda>r c k. if r0 \<le> r \<and> r < r0 + rh \<and> c0 \<le> c \<and> c < c0 + rw \<and> k < 3
                then elem img (r - r0) (c - c0) k else elem a r c k)"
    by (intro ext) (auto simp: bview_def bidx_def)
  then show ?thesis
    by (simp add: composite_def Let_def assms np_assign_def bcast_ok_def)
qed

lemma composite_rgba:
  assumes "frame_rows a y_pos img_h = (r0, r0 + rh)"
      and "frame_cols a x_pos img_w = (c0, c0 + rw)"
      and "shape img = (rh, rw, 4)"
  shows "composite img x_pos y_pos img_w img_h a =
           (a\<lparr>elem := (\<lambda>r c k.
                if r0 \<le> r \<and> r < r0 + rh \<and> c0 \<le> c \<and> c < c0 + rw \<and> k < 3
                then blend (elem a r c k) (elem img (r - r0) (c - c0) k) (elem img (r - r0) (c - c0) 3)
                else elem a r c k)\<rparr>, None)"
proof -
  have sh: "shape img = ((r0 + rh) - r0, (c0 + rw) - c0, 4)"
    using assms(3) by simp
  note bc = blend_channel_eq [OF sh]
  have k3: "\<And>k::nat. k < 3 \<longleftrightarrow> k = 0 \<or> k = 1 \<or> k = 2" by auto
  have "composite img x_pos y_pos img_w img_h a =
          blend_loop img (r0, r0 + rh) (c0, c0 + rw) [0, 1, 2] a"
    by (simp add: composite_def Let_def assms del: blend_loop.simps)
  also have "\<dots> = (a\<lparr>elem := (\<lambda>r c k.
                if r0 \<le> r \<and> r < r0 + rh \<and> c0 \<le> c \<and> c < c0 + rw \<and> k < 3
                then blend (elem a r c k) (elem img (r - r0) (c - c0) k) (elem img (r - r0) (c - c0) 3)
                else elem a r c k)\<rparr>, None)"
    apply (simp add: bc)
    apply (rule ndarray.equality)
      apply (simp_all add: fun_eq_iff)
    apply (auto simp: k3)
    done
  finally show ?thesis .
qed

text \<open>
  C9. When the rectangle is shrunk at the right or bottom edge, the bitmap is not cropped:
  what is composited is the result of \<^verbatim>\<open>cv2.resize\<close> applied to the whole bitmap, with the
  clamped width and height as target size. For a resized bitmap of three channels, the
  element of the frame at row \<open>r\<close> and column \<open>c\<close> of the rectangle is the element of the
  resized bitmap at \<open>(r - y_pos, c - x_pos)\<close>.
\<close>

theorem overlay_resized_whole:
  assumes fr: "shape moved_frame = (H, W, 3)"
      and im: "shape img_array = (h, w, ch)"
      and cl: "clamp_rect W H x y w h = (x_pos, y_pos, img_w, img_h)"
      and pos: "0 < img_w \<and> 0 < img_h"
      and rs: "cv2_resize L img_array (nat img_w, nat img_h) = Inr img_resized"
      and sh: "shape img_resized = (nat img_h, nat img_w, 3)"
  shows "place_overlay L W H img_array x y moved_frame
           = composite img_resized x_pos y_pos img_w img_h moved_frame \<and>
         (\<exists>out. place_overlay L W H img_array x y moved_frame = (out, None) \<and>
           (\<forall>r c k. y_pos \<le> int r \<and> int r < y_pos + img_h \<and>
                    x_pos \<le> int c \<and> int c < x_pos + img_w \<and> k < 3 \<longrightarrow>
                elem out r c k = elem img_resized (r - nat y_pos) (c - nat x_pos) k))"
proof -
  from pos have p: "0 < img_w" "0 < img_h" by simp_all
  note d = place_overlay_drawn [OF fr im cl p rs]
  define out where "out = moved_frame\<lparr>elem := (\<lambda>r c k.
                if nat y_pos \<le> r \<and> r < nat y_pos + nat img_h \<and>
                   nat x_pos \<le> c \<and> c < nat x_pos + nat img_w \<and> k < 3
                then elem img_resized (r - nat y_pos) (c - nat x_pos) k
                else elem moved_frame r c k)\<rparr>"
  have pl: "place_overlay L W H img_array x y moved_frame = (out, None)"
    unfolding d(1) out_def by (rule composite_rgb [OF d(2) d(3) sh])
  have conv: "\<And>r c. y_pos \<le> int r \<and> int r < y_pos + img_h \<and>
                    x_pos \<le> int c \<and> int c < x_pos + img_w \<Longrightarrow>
                 nat y_pos \<le> r \<and> r < nat y_pos + nat img_h \<and>
                   nat x_pos \<le> c \<and> c < nat x_pos + nat img_w"
    using d(4,5) p by linarith
  show ?thesis
  proof (intro exI conjI allI impI)
    show "place_overlay L W H img_array x y moved_frame
           = composite img_resized x_pos y_pos img_w img_h moved_frame" by (rule d(1))
  next
    show "place_overlay L W H img_array x y moved_frame = (out, None)" by (rule pl)
  next
    fix r c and k :: nat
    assume a: "y_pos \<le> int r \<and> int r < y_pos + img_h \<and>
               x_pos \<le> int c \<and> int c < x_pos + img_w \<and> k < 3"
    then have "nat y_pos \<le> r \<and> r < nat y_pos + nat img_h \<and>
               nat x_pos \<le> c \<and> c < nat x_pos + nat img_w"
      using conv [of r c] by blast
    with a show "elem out r c k = elem img_resized (r - nat y_pos) (c - nat x_pos) k"
      by (simp add: out_def)
  qed
qed

text \<open>
  With a resize by nearest neighbour, the bitmap of 8 columns put at column 16 of the 20
  columns of the frame is squashed to 4 columns: the columns 16 to 19 of the frame show the
  columns 0, 2, 4 and 6 of the bitmap, where a crop would show the columns 0 to 3.
\<close>

theorem overlay_resized_whole_witness:
  "shape demo_frame = (12, 20, 3) \<and> shape demo_rgb = (2, 8, 3)
   \<and> clamp_rect 20 12 16 0 8 2 = (16, 0, 4, 2)
   \<and> cv2_resize demo_lib demo_rgb (4, 2) = Inr (nn_resize demo_rgb (4, 2))
   \<and> shape (nn_resize demo_rgb (4, 2)) = (2, 4, 3)
   \<and> snd (place_overlay demo_lib 20 12 demo_rgb 16 0 demo_frame) = None
   \<and> elem (fst (place_overlay demo_lib 20 12 demo_rgb 16 0 demo_frame)) 0 16 0 = elem demo_rgb 0 0 0
   \<and> elem (fst (place_overlay demo_lib 20 12 demo_rgb 16 0 demo_frame)) 0 17 0 = elem demo_rgb 0 2 0
   \<and> elem (fst (place_overlay demo_lib 20 12 demo_rgb 16 0 demo_frame)) 1 19 2 = elem demo_rgb 1 6 2
   \<and> elem demo_rgb 1 6 2 = 161 \<and> elem demo_rgb 1 3 2 = 131"
proof -
  have h1: "shape demo_frame = (12, 20, 3)" by (simp add: demo_frame_def)
  have h2: "shape demo_rgb = (2, 8, 3)" by (simp add: demo_rgb_def)
  have h3: "clamp_rect 20 12 16 0 8 2 = (16, 0, 4, 2)" by (simp add: clamp_rect_def)
  have h4: "(0::int) < 4 \<and> (0::int) < 2" by simp
  have h5: "cv2_resize demo_lib demo_rgb (nat 4, nat 2) = Inr (nn_resize demo_rgb (4, 2))"
    by (simp add: demo_lib_def)
  have h6: "shape (nn_resize demo_rgb (4, 2)) = (nat 2, nat 4, 3)"
    by (simp add: nn_resize_def demo_rgb_def)
  from overlay_resized_whole [OF h1 h2 h3 h4 h5 h6]
  obtain out where pl: "place_overlay demo_lib 20 12 demo_rgb 16 0 demo_frame = (out, None)"
    and px: "\<And>r c k. 0 \<le> int r \<and> int r < 0 + 2 \<and> 16 \<le> int c \<and> int c < 16 + 4 \<and> k < 3 \<Longrightarrow>
                elem out r c k = elem (nn_resize demo_rgb (4, 2)) (r - nat 0) (c - nat 16) k"
    by blast
  have "elem out 0 16 0 = elem demo_rgb 0 0 0"
    using px [of 0 16 0] by (simp add: nn_resize_def h2)
  moreover have "elem out 0 17 0 = elem demo_rgb 0 2 0"
    using px [of 0 17 0] by (simp add: nn_resize_def h2)
  moreover have "elem out 1 19 2 = elem demo_rgb 1 6 2"
    using px [of 1 19 2] by (simp add: nn_resize_def h2)
  moreover have "elem demo_rgb 1 6 2 = 161 \<and> elem demo_rgb 1 3 2 = 131"
    by (simp add: demo_rgb_def)
  moreover have "cv2_resize demo_lib demo_rgb (4, 2) = Inr (nn_resize demo_rgb (4, 2))"
    by (simp add: demo_lib_def)
  moreover have "shape (nn_resize demo_rgb (4, 2)) = (2, 4, 3)"
    by (simp add: nn_resize_def demo_rgb_def)
  ultimately show ?thesis using h1 h2 h3 by (simp add: pl)
qed

section \<open>Properties of the export\<close>

text \<open>
  The loop of line 235 over \<^verbatim>\<open>enumerate(self.video_files)\<close>: while no poll answers true, its
  trace is the traces of the items one after the other; the first poll that answers true
  ends it with the message of line 237. An item writes at most once and never emits the
  completion signal.
\<close>

lemma process_loop_running:
  assumes "\<forall>i. idx \<le> i \<and> i < idx + length paths \<longrightarrow> \<not> stopped i"
  shows "process_loop L stopped self d N idx paths =
           (concat (map (\<lambda>(i, p). process_item L self d N i p) (enumerate idx paths)), False)"
  using assms
proof (induction paths arbitrary: idx)
  case Nil
  show ?case by simp
next
  case (Cons p ps)
  have "\<forall>i. Suc idx \<le> i \<and> i < Suc idx + length ps \<longrightarrow> \<not> stopped i"
    using Cons.prems by simp
  from Cons.IH [OF this] Cons.prems show ?case by simp
qed

lemma process_loop_cancelled:
  assumes "k < length paths" and "stopped (idx + k)" and "\<forall>i<k. \<not> stopped (idx + i)"
  shows "process_loop L stopped self d N idx paths =
           (concat (map (\<lambda>(i, p). process_item L self d N i p) (enumerate idx (take k paths)))
              @ [error_occurred UserInterrupt], True)"
  using assms
proof (induction paths arbitrary: idx k)
  case Nil
  then show ?case by simp
next
  case (Cons p ps)
  show ?case
  proof (cases k)
    case 0
    with Cons.prems show ?thesis by simp
  next
    case (Suc j)
    have a: "j < length ps" using Cons.prems(1) Suc by simp
    have b: "stopped (Suc idx + j)" using Cons.prems(2) Suc by simp
    have c: "\<forall>i<j. \<not> stopped (Suc idx + i)"
    proof (intro allI impI)
      fix i assume "i < j"
      then have "Suc i < k" using Suc by simp
      with Cons.prems(3) have "\<not> stopped (idx + Suc i)" by blast
      then show "\<not> stopped (Suc idx + i)" by simp
    qed
    have ns: "\<not> stopped idx" using Cons.prems(3) Suc by force
    from Cons.IH [OF a b c] ns show ?thesis by (simp add: Suc)
  qed
qed

lemma filter_is_write_log: "filter is_write (map error_occurred msgs) = []"
  by (induction msgs) (simp_all add: is_write_def)

lemma filter_is_finished_log: "filter is_finished (map error_occurred msgs) = []"
  by (induction msgs) (simp_all add: is_finished_def)

lemma process_item_open_fails:
  assumes "VideoFileClip L video_path = Inl e"
  shows "process_item L self d N idx video_path =
           [progress_updated (py_progress idx N),
            error_occurred (ProcessingVideo (idx + 1) N (path_basename L video_path)),
            error_occurred (VideoError (path_basename L video_path) e)]"
  using assms by (simp add: process_item_def)

lemma process_item_opened:
  assumes "VideoFileClip L video_path = Inr vc"
  shows "process_item L self d N idx video_path =
           [progress_updated (py_progress idx N),
            error_occurred (ProcessingVideo (idx + 1) N (path_basename L video_path)),
            error_occurred (VideoSize (vc_size vc))] @
           map error_occurred (snd (build_clips L self vc)) @
           [error_occurred (Writing (path_basename L (output_file_of L d video_path))),
            write_videofile (write_call_for L self d vc video_path),
            error_occurred (case write_result L (write_call_for L self d vc video_path) of
                              Some e \<Rightarrow> VideoError (path_basename L video_path) e
                            | None \<Rightarrow> VideoDone (path_basename L (output_file_of L d video_path)))]"
  using assms
  by (simp add: process_item_def Let_def write_call_for_def split: option.split)

lemma process_item_writes:
  "filter is_write (process_item L self d N idx video_path) =
     (case VideoFileClip L video_path of
        Inl e \<Rightarrow> []
      | Inr vc \<Rightarrow> [write_videofile (write_call_for L self d vc video_path)])"
proof (cases "VideoFileClip L video_path")
  case (Inl e)
  then show ?thesis
    by (simp add: process_item_open_fails is_write_def)
next
  case (Inr vc)
  then show ?thesis
    by (simp add: process_item_opened filter_is_write_log) (simp add: is_write_def)
qed

lemma process_item_not_finished:
  "filter is_finished (process_item L self d N idx video_path) = []"
proof (cases "VideoFileClip L video_path")
  case (Inl e)
  then show ?thesis
    by (simp add: process_item_open_fails is_finished_def)
next
  case (Inr vc)
  then show ?thesis
    by (simp add: process_item_opened filter_is_finished_log) (simp add: is_finished_def)
qed

lemma items_not_finished:
  "filter is_finished (concat (map (\<lambda>(i, p). process_item L self d N i p) ips)) = []"
  by (induction ips) (auto simp: process_item_not_finished)

lemma items_writes_bound:
  "length (filter is_write (concat (map (\<lambda>(i, p). process_item L self d N i p) ips))) \<le> length ips"
proof (induction ips)
  case Nil
  show ?case by simp
next
  case (Cons ip ips)
  obtain i p where ip: "ip = (i, p)" by (cases ip)
  have "length (filter is_write (process_item L self d N i p)) \<le> 1"
    by (simp add: process_item_writes split: sum.split)
  with Cons.IH show ?case by (simp add: ip)
qed

lemma filter_is_progress_log: "filter is_progress (map error_occurred msgs) = []"
  by (induction msgs) (simp_all add: is_progress_def)

lemma py_progress_of_three:
  "py_progress 0 3 = 0" "py_progress 1 3 = 33" "py_progress 2 3 = 66"
  by code_simp+

lemma demo_files:
  "video_files demo_self = [''/in/a.mp4'', ''/in/bad.mp4'', ''/in/b.wmv'']"
  "output_dir demo_self = Some ''/out''"
  by (simp_all add: demo_self_def)

lemma demo_opens:
  "VideoFileClip demo_lib ''/in/a.mp4'' = Inr demo_clip"
  "VideoFileClip demo_lib ''/in/bad.mp4'' = Inl (LibraryError ''cannot open'')"
  "VideoFileClip demo_lib ''/in/b.wmv'' = Inr demo_clip"
  "write_result demo_lib call = None"
  "path_basename demo_lib ''/in/bad.mp4'' = ''bad.mp4''"
  by (simp_all add: demo_lib_def posix_basename_def)

lemma process_item_progress:
  "filter is_progress (process_item L self d N idx video_path) = [progress_updated (py_progress idx N)]"
proof (cases "VideoFileClip L video_path")
  case (Inl e)
  then show ?thesis
    by (simp add: process_item_open_fails is_progress_def)
next
  case (Inr vc)
  then show ?thesis
    by (simp add: process_item_opened filter_is_progress_log) (simp add: is_progress_def)
qed

text \<open>
  C6. Partial-failure batch semantics. For a batch of \<open>N\<close> files that is not cancelled: the
  trace of the run is the trace of item 0, then of item 1, and so on, each the trace of
  that item alone, followed by progress 100 and the completion signal with \<open>N\<close>; every
  item starts with the progress \<^verbatim>\<open>int((idx / N) * 100)\<close>; an item whose video cannot be opened
  or whose write raises ends with the message that names the file and the exception; an
  item whose video opens and whose write does not raise makes its one call of
  \<^verbatim>\<open>write_videofile\<close> and reports its output file as done.
\<close>

theorem batch_partial_failure:
  assumes "video_files self \<noteq> []" and "output_dir self = Some d" and "d \<noteq> []"
      and "\<forall>i < length (video_files self). \<not> stopped i"
      and "N = length (video_files self)"
  shows "process_videos L stopped self =
           concat (map (\<lambda>(idx, video_path). process_item L self d N idx video_path)
                       (enumerate 0 (video_files self)))
           @ [progress_updated 100, processing_finished N]
       \<and> (\<forall>idx video_path. \<exists>rest.
             process_item L self d N idx video_path =
               progress_updated (py_progress idx N) #
               error_occurred (ProcessingVideo (idx + 1) N (path_basename L video_path)) # rest)
       \<and> (\<forall>idx video_path e. VideoFileClip L video_path = Inl e \<longrightarrow>
             process_item L self d N idx video_path =
               [progress_updated (py_progress idx N),
                error_occurred (ProcessingVideo (idx + 1) N (path_basename L video_path)),
                error_occurred (VideoError (path_basename L video_path) e)])
       \<and> (\<forall>idx video_path vc e. VideoFileClip L video_path = Inr vc \<and>
             write_result L (write_call_for L self d vc video_path) = Some e \<longrightarrow>
             last (process_item L self d N idx video_path) =
               error_occurred (VideoError (path_basename L video_path) e))
       \<and> (\<forall>idx video_path vc. VideoFileClip L video_path = Inr vc \<and>
             write_result L (write_call_for L self d vc video_path) = None \<longrightarrow>
             filter is_write (process_item L self d N idx video_path) =
               [write_videofile (write_call_for L self d vc video_path)] \<and>
             last (process_item L self d N idx video_path) =
               error_occurred (VideoDone (path_basename L (output_file_of L d video_path))))"
proof -
  have run: "\<forall>i. 0 \<le> i \<and> i < 0 + length (video_files self) \<longrightarrow> \<not> stopped i"
    using assms(4) by simp
  have a: "process_videos L stopped self =
           concat (map (\<lambda>(idx, video_path). process_item L self d N idx video_path)
                       (enumerate 0 (video_files self)))
           @ [progress_updated 100, processing_finished N]"
    using assms(1,2,3,5) by (simp add: process_videos_def Let_def process_loop_running [OF run])
  have b: "\<forall>idx video_path. \<exists>rest.
             process_item L self d N idx video_path =
               progress_updated (py_progress idx N) #
               error_occurred (ProcessingVideo (idx + 1) N (path_basename L video_path)) # rest"
    by (simp add: process_item_def)
  have c: "\<forall>idx video_path e. VideoFileClip L video_path = Inl e \<longrightarrow>
             process_item L self d N idx video_path =
               [progress_updated (py_progress idx N),
                error_occurred (ProcessingVideo (idx + 1) N (path_basename L video_path)),
                error_occurred (VideoError (path_basename L video_path) e)]"
    by (simp add: process_item_open_fails)
  have d: "\<forall>idx video_path vc e. VideoFileClip L video_path = Inr vc \<and>
             write_result L (write_call_for L self d vc video_path) = Some e \<longrightarrow>
             last (process_item L self d N idx video_path) =
               error_occurred (VideoError (path_basename L video_path) e)"
    by (simp add: process_item_opened)
  have e: "\<forall>idx video_path vc. VideoFileClip L video_path = Inr vc \<and>
             write_result L (write_call_for L self d vc video_path) = None \<longrightarrow>
             filter is_write (process_item L self d N idx video_path) =
               [write_videofile (write_call_for L self d vc video_path)] \<and>
             last (process_item L self d N idx video_path) =
               error_occurred (VideoDone (path_basename L (output_file_of L d video_path)))"
  proof (intro allI impI, elim conjE, intro conjI)
    fix idx video_path vc
    assume op: "VideoFileClip L video_path = Inr vc"
      and wr: "write_result L (write_call_for L self d vc video_path) = None"
    show "filter is_write (process_item L self d N idx video_path) =
               [write_videofile (write_call_for L self d vc video_path)]"
      by (simp add: process_item_writes op)
    show "last (process_item L self d N idx video_path) =
               error_occurred (VideoDone (path_basename L (output_file_of L d video_path)))"
      by (simp add: process_item_opened [OF op] wr)
  qed
  from a b c d e show ?thesis by blast
qed

text \<open>
  Three files, of which the second cannot be opened: progress 0, 33, 66, 100, the outputs
  of the first and the third, the message for the second, and the completion signal for 3.
\<close>

theorem batch_partial_failure_witness:
  "video_files demo_self \<noteq> [] \<and> output_dir demo_self = Some ''/out''
   \<and> filter is_progress (process_videos demo_lib (\<lambda>i. False) demo_self) =
       [progress_updated 0, progress_updated 33, progress_updated 66, progress_updated 100]
   \<and> filter is_write (process_videos demo_lib (\<lambda>i. False) demo_self) =
       [write_videofile (write_call_for demo_lib demo_self ''/out'' demo_clip ''/in/a.mp4''),
        write_videofile (write_call_for demo_lib demo_self ''/out'' demo_clip ''/in/b.wmv'')]
   \<and> error_occurred (VideoError ''bad.mp4'' (LibraryError ''cannot open''))
       \<in> set (process_videos demo_lib (\<lambda>i. False) demo_self)
   \<and> last (process_videos demo_lib (\<lambda>i. False) demo_self) = processing_finished 3"
proof -
  let ?T = "process_videos demo_lib (\<lambda>i. False) demo_self"
  let ?item = "process_item demo_lib demo_self ''/out'' 3"
  have h1: "video_files demo_self \<noteq> []" by (simp add: demo_files)
  have h3: "''/out'' \<noteq> []" by simp
  have h4: "\<forall>i < length (video_files demo_self). \<not> (\<lambda>i. False) i" by simp
  have h5: "3 = length (video_files demo_self)" by (simp add: demo_files)
  from batch_partial_failure [OF h1 demo_files(2) h3 h4 h5, of demo_lib]
  have T: "?T = ?item 0 ''/in/a.mp4'' @ ?item 1 ''/in/bad.mp4'' @ ?item 2 ''/in/b.wmv''
             @ [progress_updated 100, processing_finished 3]"
    by (simp add: demo_files numeral_2_eq_2 [symmetric])
  have p: "filter is_progress ?T =
       [progress_updated 0, progress_updated 33, progress_updated 66, progress_updated 100]"
    unfolding T
    by (simp add: process_item_progress py_progress_of_three py_progress_of_three(2) [simplified])
       (simp add: is_progress_def)
  have w: "filter is_write ?T =
       [write_videofile (write_call_for demo_lib demo_self ''/out'' demo_clip ''/in/a.mp4''),
        write_videofile (write_call_for demo_lib demo_self ''/out'' demo_clip ''/in/b.wmv'')]"
    unfolding T by (simp add: process_item_writes demo_opens) (simp add: is_write_def)
  have e: "error_occurred (VideoError ''bad.mp4'' (LibraryError ''cannot open'')) \<in> set ?T"
    unfolding T by (simp add: process_item_open_fails [OF demo_opens(2)] demo_opens(5))
  have l: "last ?T = processing_finished 3"
    unfolding T by simp
  from h1 demo_files(2) p w e l show ?thesis by blast
qed

text \<open>
  C7. Cooperative cancellation. The flag is polled before each item. If the poll before item
  \<open>k\<close> is the first to answer true, the trace of the run is the traces of the items before
  \<open>k\<close> followed by the cancellation message: no later item is started, the only calls of
  \<^verbatim>\<open>write_videofile\<close> are those of the items before \<open>k\<close> (at most \<open>k\<close>), nothing undoes them,
  and the completion signal is not emitted.
\<close>

theorem cancellation_stops_batch:
  assumes "video_files self \<noteq> []" and "output_dir self = Some d" and "d \<noteq> []"
      and "k < length (video_files self)" and "stopped k" and "\<forall>i<k. \<not> stopped i"
      and "N = length (video_files self)"
  shows "process_videos L stopped self =
           concat (map (\<lambda>(idx, video_path). process_item L self d N idx video_path)
                       (enumerate 0 (take k (video_files self))))
           @ [error_occurred UserInterrupt]
       \<and> filter is_finished (process_videos L stopped self) = []
       \<and> filter is_write (process_videos L stopped self) =
           filter is_write
             (concat (map (\<lambda>(idx, video_path). process_item L self d N idx video_path)
                          (enumerate 0 (take k (video_files self)))))
       \<and> length (filter is_write (process_videos L stopped self)) \<le> k"
proof -
  have st: "stopped (0 + k)" and ns: "\<forall>i<k. \<not> stopped (0 + i)"
    using assms(5,6) by simp_all
  have a: "process_videos L stopped self =
           concat (map (\<lambda>(idx, video_path). process_item L self d N idx video_path)
                       (enumerate 0 (take k (video_files self))))
           @ [error_occurred UserInterrupt]"
    using assms(1,2,3,7)
    by (simp add: process_videos_def Let_def process_loop_cancelled [OF assms(4) st ns])
  have b: "filter is_finished (process_videos L stopped self) = []"
    unfolding a by (simp add: items_not_finished) (simp add: is_finished_def)
  have c: "filter is_write (process_videos L stopped self) =
           filter is_write
             (concat (map (\<lambda>(idx, video_path). process_item L self d N idx video_path)
                          (enumerate 0 (take k (video_files self)))))"
    unfolding a by (simp add: is_write_def)
  have "length (filter is_write (process_videos L stopped self))
          \<le> length (enumerate 0 (take k (video_files self)))"
    unfolding c by (rule items_writes_bound)
  also have "\<dots> = k" using assms(4) by simp
  finally have d: "length (filter is_write (process_videos L stopped self)) \<le> k" .
  from a b c d show ?thesis by blast
qed

text \<open>
  Three files, cancelled at the poll before the third: the output of the first is written
  (the second cannot be opened), the run ends with the cancellation message.
\<close>

theorem cancellation_stops_batch_witness:
  "video_files demo_self \<noteq> [] \<and> output_dir demo_self = Some ''/out''
   \<and> (2::nat) < length (video_files demo_self)
   \<and> filter is_write (process_videos demo_lib (\<lambda>i. 2 \<le> i) demo_self) =
       [write_videofile (write_call_for demo_lib demo_self ''/out'' demo_clip ''/in/a.mp4'')]
   \<and> filter is_finished (process_videos demo_lib (\<lambda>i. 2 \<le> i) demo_self) = []
   \<and> last (process_videos demo_lib (\<lambda>i. 2 \<le> i) demo_self) = error_occurred UserInterrupt"
proof -
  let ?T = "process_videos demo_lib (\<lambda>i. 2 \<le> i) demo_self"
  let ?item = "process_item demo_lib demo_self ''/out'' 3"
  have h1: "video_files demo_self \<noteq> []" by (simp add: demo_files)
  have h3: "''/out'' \<noteq> []" by simp
  have h4: "(2::nat) < length (video_files demo_self)" by (simp add: demo_files)
  have h5: "(\<lambda>i::nat. 2 \<le> i) 2" by simp
  have h6: "\<forall>i<2. \<not> (\<lambda>i::nat. 2 \<le> i) i" by simp
  have h7: "3 = length (video_files demo_self)" by (simp add: demo_files)
  note th = cancellation_stops_batch [OF h1 demo_files(2) h3 h4 h5 h6 h7, of demo_lib]
  from th have T: "?T = ?item 0 ''/in/a.mp4'' @ ?item 1 ''/in/bad.mp4'' @ [error_occurred UserInterrupt]"
    by (simp add: demo_files numeral_2_eq_2)
  from th have f: "filter is_finished ?T = []" by blast
  have w: "filter is_write ?T =
       [write_videofile (write_call_for demo_lib demo_self ''/out'' demo_clip ''/in/a.mp4'')]"
    unfolding T by (simp add: process_item_writes demo_opens) (simp add: is_write_def)
  have l: "last ?T = error_occurred UserInterrupt"
    unfolding T by simp
  from h1 demo_files(2) h4 w f l show ?thesis by blast
qed

text \<open>
  C8, as amended. An item whose video opens makes exactly one call of \<^verbatim>\<open>write_videofile\<close>;
  the file is the stem of the input name, \<^verbatim>\<open>_processed\<close> and the extension of the input
  name, joined to the output directory; the frame rate is the one of the source clip; the
  video codec is \<^verbatim>\<open>libx264\<close> and the audio codec \<^verbatim>\<open>aac\<close>, whatever the extension.
\<close>

theorem write_step_contract:
  assumes "VideoFileClip L video_path = Inr vc"
      and "path_splitext L (path_basename L video_path) = (name, ext)"
  shows "filter is_write (process_item L self d N idx video_path) =
           [write_videofile (write_call_for L self d vc video_path)]
       \<and> wc_filename (write_call_for L self d vc video_path) =
           path_join L d (name @ ''_processed'' @ ext)
       \<and> wc_fps (write_call_for L self d vc video_path) = vc_fps vc
       \<and> wc_codec (write_call_for L self d vc video_path) = ''libx264''
       \<and> wc_audio_codec (write_call_for L self d vc video_path) = ''aac''"
  using assms
  by (simp add: process_item_writes write_call_for_def output_file_of_def)

text \<open>
  The third file of the batch, a \<^verbatim>\<open>.wmv\<close>.
\<close>

theorem write_step_contract_witness:
  "VideoFileClip demo_lib ''/in/b.wmv'' = Inr demo_clip
   \<and> path_splitext demo_lib (path_basename demo_lib ''/in/b.wmv'') = (''b'', ''.wmv'')
   \<and> filter is_write (process_item demo_lib demo_self ''/out'' 3 2 ''/in/b.wmv'') =
       [write_videofile (write_call_for demo_lib demo_self ''/out'' demo_clip ''/in/b.wmv'')]
   \<and> wc_filename (write_call_for demo_lib demo_self ''/out'' demo_clip ''/in/b.wmv'')
       = ''/out/b_processed.wmv''
   \<and> wc_fps (write_call_for demo_lib demo_self ''/out'' demo_clip ''/in/b.wmv'') = 25
   \<and> wc_codec (write_call_for demo_lib demo_self ''/out'' demo_clip ''/in/b.wmv'') = ''libx264''
   \<and> wc_audio_codec (write_call_for demo_lib demo_self ''/out'' demo_clip ''/in/b.wmv'') = ''aac''"
proof -
  have h2: "path_splitext demo_lib (path_basename demo_lib ''/in/b.wmv'') = (''b'', ''.wmv'')"
    by (simp add: demo_lib_def posix_basename_def posix_splitext_def)
  have j: "path_join demo_lib ''/out'' (''b'' @ ''_processed'' @ ''.wmv'') = ''/out/b_processed.wmv''"
    by (simp add: demo_lib_def posix_join_def)
  have f: "vc_fps demo_clip = 25" by (simp add: demo_clip_def)
  from write_step_contract [OF demo_opens(3) h2, of demo_self "''/out''" 3 2] demo_opens(3) h2
  show ?thesis unfolding j f by blast
qed

text \<open>
  C8 as stated fails on two counts. The codec does not depend on the extension: the calls
  for \<^verbatim>\<open>a.mp4\<close> and \<^verbatim>\<open>b.wmv\<close> name the same video and audio codec. And not every input
  has an output: for a file that cannot be opened, nothing is written.
\<close>

theorem codec_ignores_extension_counterexample:
  "wc_filename (write_call_for demo_lib demo_self ''/out'' demo_clip ''/in/a.mp4'')
     = ''/out/a_processed.mp4''
   \<and> wc_filename (write_call_for demo_lib demo_self ''/out'' demo_clip ''/in/b.wmv'')
     = ''/out/b_processed.wmv''
   \<and> wc_codec (write_call_for demo_lib demo_self ''/out'' demo_clip ''/in/a.mp4'') = ''libx264''
   \<and> wc_codec (write_call_for demo_lib demo_self ''/out'' demo_clip ''/in/b.wmv'') = ''libx264''
   \<and> wc_audio_codec (write_call_for demo_lib demo_self ''/out'' demo_clip ''/in/a.mp4'') = ''aac''
   \<and> wc_audio_codec (write_call_for demo_lib demo_self ''/out'' demo_clip ''/in/b.wmv'') = ''aac''
   \<and> VideoFileClip demo_lib ''/in/bad.mp4'' = Inl (LibraryError ''cannot open'')
   \<and> filter is_write (process_item demo_lib demo_self ''/out'' 3 1 ''/in/bad.mp4'') = []"
  by (simp add: write_call_for_def output_file_of_def demo_lib_def posix_basename_def
      posix_splitext_def posix_join_def process_item_def is_write_def)

section \<open>Properties of the double-precision arithmetic\<close>

text \<open>
  The exponent found by \<open>ilog2\<close> is the right one, so \<open>fl64\<close> rounds to 53 significant
  bits: it keeps the sign, the integers below \<open>2 ^ 53\<close> and the interval from 0 to 1, and
  below 256 it moves a number by at most \<open>2 powi - 46\<close>.
\<close>

lemma bitlen_powi:
  assumes "0 < n"
  shows "(2::rat) powi (bitlen n - 1) \<le> of_int n" and "of_int n < (2::rat) powi (bitlen n)"
proof -
  from bitlen_bounds [OF assms] have lo: "2 ^ nat (bitlen n - 1) \<le> n" and hi: "n < 2 ^ nat (bitlen n)"
    by simp_all
  have b1: "1 \<le> bitlen n" using assms by (simp add: bitlen_alt_def)
  have "(2::rat) powi (bitlen n - 1) = 2 ^ nat (bitlen n - 1)"
    using b1 by (simp add: power_int_def)
  also have "\<dots> = of_int (2 ^ nat (bitlen n - 1))" by simp
  also have "\<dots> \<le> of_int n" using lo by (simp only: of_int_le_iff)
  finally show "(2::rat) powi (bitlen n - 1) \<le> of_int n" .
  have "of_int n < (of_int (2 ^ nat (bitlen n)) :: rat)" using hi by (simp only: of_int_less_iff)
  also have "\<dots> = 2 ^ nat (bitlen n)" by simp
  also have "\<dots> = 2 powi (bitlen n)" using b1 by (simp add: power_int_def)
  finally show "of_int n < (2::rat) powi (bitlen n)" .
qed

lemma ilog2_bounds:
  assumes "0 < q"
  shows "2 powi (ilog2 q) \<le> q" and "q < 2 powi (ilog2 q + 1)"
proof -
  obtain n d where qd: "quotient_of q = (n, d)" by (cases "quotient_of q")
  have dpos: "0 < d" using qd quotient_of_denom_pos by blast
  have qeq: "q = of_int n / of_int d" using qd by (rule quotient_of_div)
  have npos: "0 < n"
  proof (rule ccontr)
    assume "\<not> 0 < n"
    then have "of_int n \<le> (0::rat)" by simp
    with dpos have "q \<le> 0" unfolding qeq by (simp add: divide_nonpos_pos)
    with assms show False by simp
  qed
  define k where "k = bitlen n - bitlen d"
  note bn = bitlen_powi [OF npos] and bd = bitlen_powi [OF dpos]
  have dq: "(0::rat) < of_int d" using dpos by simp
  have p2: "\<And>e. (0::rat) < 2 powi e" by simp
  have "q < 2 powi (bitlen n) / of_int d"
    unfolding qeq using bn(2) dq by (simp add: divide_strict_right_mono)
  also have "\<dots> \<le> 2 powi (bitlen n) / 2 powi (bitlen d - 1)"
    using bd(1) p2 by (simp add: frac_le)
  also have "\<dots> = 2 powi (k + 1)"
    unfolding k_def by (simp add: power_int_diff [symmetric] algebra_simps)
  finally have up: "q < 2 powi (k + 1)" .
  have "2 powi (k - 1) = (2::rat) powi (bitlen n - 1) / 2 powi (bitlen d)"
    unfolding k_def by (simp add: power_int_diff [symmetric] algebra_simps)
  also have "\<dots> \<le> of_int n / 2 powi (bitlen d)"
    using bn(1) p2 by (simp add: divide_right_mono)
  also have "\<dots> \<le> of_int n / of_int d"
    using bd(2) dq npos by (simp add: frac_le)
  finally have lo: "2 powi (k - 1) \<le> q" unfolding qeq .
  have il: "ilog2 q = (if 2 powi k \<le> q then k else k - 1)"
    by (simp add: ilog2_def qd k_def Let_def)
  show "2 powi (ilog2 q) \<le> q" using lo by (simp add: il)
  show "q < 2 powi (ilog2 q + 1)" using up by (auto simp: il not_le)
qed

lemma round_half_even_of_int: "round_half_even (of_int z) = z"
  by (simp add: round_half_even_def)

lemma round_half_even_bounds: "\<lfloor>r\<rfloor> \<le> round_half_even r" "round_half_even r \<le> \<lfloor>r\<rfloor> + 1"
  by (simp_all add: round_half_even_def Let_def)

lemma powi_le_mono: "a \<le> b \<Longrightarrow> (2::rat) powi a \<le> 2 powi b"
  by (rule power_int_increasing) simp_all

lemma powi_less_cancel: "(2::rat) powi a < 2 powi b \<Longrightarrow> a < b"
  using powi_le_mono [of b a] by (cases "a < b") simp_all

lemma fl64_pos_unfold:
  assumes "0 < q"
  shows "fl64 q = of_int (round_half_even (q / 2 powi (ilog2 q - 52))) * 2 powi (ilog2 q - 52)"
  using assms by (simp add: fl64_def Let_def)

lemma fl64_nonneg:
  assumes "0 \<le> q"
  shows "0 \<le> fl64 q"
proof (cases "q = 0")
  case True
  then show ?thesis by (simp add: fl64_def)
next
  case False
  with assms have pos: "0 < q" by simp
  have "0 \<le> q / 2 powi (ilog2 q - 52)" using pos by simp
  then have "0 \<le> \<lfloor>q / 2 powi (ilog2 q - 52)\<rfloor>" by simp
  with round_half_even_bounds(1) [of "q / 2 powi (ilog2 q - 52)"]
  have "0 \<le> round_half_even (q / 2 powi (ilog2 q - 52))" by linarith
  then show ?thesis unfolding fl64_pos_unfold [OF pos] by simp
qed

lemma fl64_of_nat:
  assumes "n < 2 ^ 53"
  shows "fl64 (of_nat n) = of_nat n"
proof (cases "n = 0")
  case True
  then show ?thesis by (simp add: fl64_def)
next
  case False
  then have pos: "(0::rat) < of_nat n" by simp
  define e where "e = ilog2 (of_nat n)"
  have "(2::rat) powi e \<le> of_nat n" unfolding e_def using ilog2_bounds(1) [OF pos] .
  also have "(of_nat n :: rat) < of_nat (2 ^ 53)" using assms by (simp only: of_nat_less_iff)
  also have "(of_nat (2 ^ 53) :: rat) = 2 powi 53" by simp
  finally have "e < 53" by (rule powi_less_cancel)
  then have m: "e - 52 = - int (nat (52 - e))" by simp
  define m where "m = nat (52 - e)"
  note m = m [folded m_def]
  have u: "(2::rat) powi (e - 52) = 1 / 2 ^ m" unfolding m by (simp add: power_int_minus field_simps)
  have "of_nat n / (2::rat) powi (e - 52) = of_int (int n * 2 ^ m)" unfolding u by simp
  then have "round_half_even (of_nat n / 2 powi (e - 52)) = int n * 2 ^ m"
    by (simp only: round_half_even_of_int)
  then show ?thesis
    unfolding fl64_pos_unfold [OF pos] e_def [symmetric] by (simp add: u)
qed

lemma fl64_one: "fl64 1 = 1"
  using fl64_of_nat [of 1] by simp

lemma fl64_le_one:
  assumes "0 \<le> q" and "q \<le> 1"
  shows "fl64 q \<le> 1"
proof -
  consider "q = 0" | "q = 1" | "0 < q" "q < 1" using assms by fastforce
  then show ?thesis
  proof cases
    case 1
    then show ?thesis by (simp add: fl64_def)
  next
    case 2
    then show ?thesis by (simp add: fl64_one)
  next
    case 3
    define e where "e = ilog2 q"
    define u where "u = (2::rat) powi (e - 52)"
    have upos: "0 < u" unfolding u_def by simp
    have "(2::rat) powi e \<le> q" unfolding e_def using ilog2_bounds(1) [OF 3(1)] .
    also have "q < 2 powi 0" using 3(2) by simp
    finally have eneg: "e + 1 \<le> 0" using powi_less_cancel by fastforce
    have "q < 2 powi (e + 1)" unfolding e_def using ilog2_bounds(2) [OF 3(1)] .
    then have "q / u < 2 powi (e + 1) / u" using upos by (simp add: divide_strict_right_mono)
    also have "2 powi (e + 1) / u = 2 powi 53"
    proof -
      have "(2::rat) powi (e + 1) / 2 powi (e - 52) = 2 powi ((e + 1) - (e - 52))"
        by (rule power_int_diff [symmetric]) simp
      also have "(e + 1) - (e - 52) = 53" by simp
      finally show ?thesis unfolding u_def .
    qed
    also have "(2::rat) powi 53 = of_int (2 ^ 53)" by simp
    finally have "\<lfloor>q / u\<rfloor> < 2 ^ 53" by (simp only: floor_less_iff)
    with round_half_even_bounds(2) [of "q / u"] have "round_half_even (q / u) \<le> 2 ^ 53"
      by linarith
    then have "(of_int (round_half_even (q / u)) :: rat) \<le> of_int (2 ^ 53)"
      by (simp only: of_int_le_iff)
    then have "of_int (round_half_even (q / u)) * u \<le> 2 powi 53 * u"
      using upos by simp
    also have "2 powi 53 * u = 2 powi (e + 1)"
    proof -
      have "(2::rat) powi 53 * 2 powi (e - 52) = 2 powi (53 + (e - 52))"
        by (rule power_int_add [symmetric]) simp
      also have "53 + (e - 52) = e + 1" by simp
      finally show ?thesis unfolding u_def .
    qed
    also have "\<dots> \<le> 2 powi 0" using eneg by (rule powi_le_mono)
    finally show ?thesis
      unfolding fl64_pos_unfold [OF 3(1)] e_def [symmetric] u_def [symmetric] by simp
  qed
qed

lemma unat_uint8_le: "unat (w :: uint8) \<le> 255"
  using unsigned_less [of w, where 'a = nat] by simp

lemma ratio_range: "n \<le> 255 \<Longrightarrow> 0 \<le> rat_of_nat n / 255 \<and> rat_of_nat n / 255 \<le> 1"
  by simp

lemma alpha_of_range: "0 \<le> alpha_of a \<and> alpha_of a \<le> 1"
  unfolding alpha_of_def
  using ratio_range [OF unat_uint8_le [of a]] fl64_nonneg fl64_le_one by blast

lemma fl64_uint8: "fl64 (unsigned (w :: uint8)) = unsigned w"
proof -
  have "unat w < 2 ^ 53" using unat_uint8_le [of w] by simp
  from fl64_of_nat [OF this] show ?thesis by simp
qed

lemma floor_unsigned: "\<lfloor>unsigned w :: rat\<rfloor> = uint w"
  by (metis floor_of_int of_int_uint)

lemma fl64_zero: "fl64 0 = 0"
  by (simp add: fl64_def)

lemma blend_opaque: "blend bg fg 255 = fg"
proof -
  have a: "alpha_of 255 = 1" by (simp add: alpha_of_def fl64_one)
  show ?thesis
    by (simp add: blend_def a fl64_zero fl64_uint8 floor_unsigned)
qed

lemma blend_transparent: "blend bg fg 0 = bg"
proof -
  have a: "alpha_of 0 = 0" by (simp add: alpha_of_def fl64_zero)
  show ?thesis
    by (simp add: blend_def a fl64_zero fl64_one fl64_uint8 floor_unsigned)
qed

lemma blend_values: "blend 3 3 5 = 2" "blend 51 200 128 = 125"
  by code_simp+

lemma round_half_even_err: "\<bar>of_int (round_half_even r) - r\<bar> \<le> 1 / 2"
proof -
  define f where "f = \<lfloor>r\<rfloor>"
  define d where "d = r - of_int f"
  have d: "0 \<le> d" "d < 1" unfolding d_def f_def by linarith+
  have r: "r = of_int f + d" unfolding d_def by simp
  have v: "round_half_even r =
      (if d < 1 / 2 then f else if 1 / 2 < d then f + 1 else if even f then f else f + 1)"
    by (simp add: round_half_even_def Let_def f_def d_def)
  have "\<bar>of_int f - r\<bar> \<le> 1 / 2" if "d \<le> 1 / 2"
    using that d unfolding r by simp
  moreover have "\<bar>of_int (f + 1) - r\<bar> \<le> 1 / 2" if "1 / 2 \<le> d"
    using that d unfolding r by simp
  ultimately show ?thesis unfolding v by (simp add: not_less)
qed

lemma fl64_err_256:
  assumes "0 \<le> q" and "q < 256"
  shows "\<bar>fl64 q - q\<bar> \<le> 1 / 2 ^ 46"
proof (cases "q = 0")
  case True
  then show ?thesis by (simp add: fl64_zero)
next
  case False
  with assms have pos: "0 < q" by simp
  define e where "e = ilog2 q"
  define u where "u = (2::rat) powi (e - 52)"
  have upos: "0 < u" unfolding u_def by simp
  have "(2::rat) powi e \<le> q" unfolding e_def using ilog2_bounds(1) [OF pos] .
  also have "q < 2 powi 8" using assms(2) by simp
  finally have "e < 8" by (rule powi_less_cancel)
  then have "e - 52 \<le> - 45" by simp
  then have "u \<le> 2 powi (- 45)" unfolding u_def by (rule powi_le_mono)
  then have ule: "u \<le> 1 / 2 ^ 45" by (simp add: power_int_minus field_simps)
  have fl: "fl64 q = of_int (round_half_even (q / u)) * u"
    unfolding u_def e_def by (rule fl64_pos_unfold [OF pos])
  have "fl64 q - q = (of_int (round_half_even (q / u)) - q / u) * u"
    using upos by (simp add: fl field_simps)
  then have "\<bar>fl64 q - q\<bar> = \<bar>of_int (round_half_even (q / u)) - q / u\<bar> * u"
    using upos by (simp add: abs_mult)
  also have "\<dots> \<le> (1 / 2) * u"
    using round_half_even_err [of "q / u"] upos by (intro mult_right_mono) simp_all
  also have "\<dots> \<le> (1 / 2) * (1 / 2 ^ 45)"
    using ule by (intro mult_left_mono) simp_all
  also have "\<dots> = 1 / 2 ^ 46" by simp
  finally show ?thesis .
qed

lemma scaled_err:
  fixes c x y d :: rat
  assumes "0 \<le> c" and "c \<le> 255" and "\<bar>x - y\<bar> \<le> d"
  shows "\<bar>c * x - c * y\<bar> \<le> 255 * d"
proof -
  have d0: "0 \<le> d" using assms(3) by linarith
  have "\<bar>c * x - c * y\<bar> = c * \<bar>x - y\<bar>"
    using assms(1) by (simp add: right_diff_distrib [symmetric] abs_mult)
  also have "\<dots> \<le> 255 * d"
    using assms d0 by (intro mult_mono) simp_all
  finally show ?thesis .
qed

lemma scaled_range:
  fixes c x :: rat
  assumes "0 \<le> c" and "c \<le> 255" and "0 \<le> x" and "x \<le> 1"
  shows "0 \<le> c * x" and "c * x \<le> 255"
proof -
  show "0 \<le> c * x" using assms by simp
  have "c * x \<le> 255 * 1" using assms by (intro mult_mono) simp_all
  then show "c * x \<le> 255" by simp
qed

lemma blend_float_near:
  fixes B F a0 :: rat
  assumes "0 \<le> B" and "B \<le> 255" and "0 \<le> F" and "F \<le> 255" and "0 \<le> a0" and "a0 \<le> 1"
  shows "0 \<le> fl64 (fl64 (B * fl64 (1 - fl64 a0)) + fl64 (F * fl64 a0))"
    and "\<bar>fl64 (fl64 (B * fl64 (1 - fl64 a0)) + fl64 (F * fl64 a0)) - (B * (1 - a0) + F * a0)\<bar>
           \<le> 1 / 2 ^ 36"
proof -
  define dl where "dl = (1 / 2 ^ 46 :: rat)"
  define al where "al = fl64 a0"
  define t where "t = fl64 (1 - al)"
  define p1 where "p1 = fl64 (B * t)"
  define p2 where "p2 = fl64 (F * al)"
  define s where "s = fl64 (p1 + p2)"
  have dlv: "767 * dl < 1" "768 * dl \<le> 1 / 2 ^ 36" by (simp_all add: dl_def)
  have a1: "\<bar>al - a0\<bar> \<le> dl" unfolding al_def dl_def using assms by (intro fl64_err_256) simp_all
  have a2: "0 \<le> al" "al \<le> 1" unfolding al_def using assms fl64_nonneg fl64_le_one by blast+
  have t1: "\<bar>t - (1 - al)\<bar> \<le> dl" unfolding t_def dl_def using a2 by (intro fl64_err_256) simp_all
  have t2: "0 \<le> t" "t \<le> 1" unfolding t_def using a2 fl64_nonneg [of "1 - al"] fl64_le_one [of "1 - al"]
    by simp_all
  note m1 = scaled_range [OF assms(1,2) t2]
  note m2 = scaled_range [OF assms(3,4) a2]
  have q1: "\<bar>p1 - B * t\<bar> \<le> dl" unfolding p1_def dl_def using m1 by (intro fl64_err_256) simp_all
  have q2: "\<bar>p2 - F * al\<bar> \<le> dl" unfolding p2_def dl_def using m2 by (intro fl64_err_256) simp_all
  have n1: "0 \<le> p1" unfolding p1_def using m1 fl64_nonneg by blast
  have n2: "0 \<le> p2" unfolding p2_def using m2 fl64_nonneg by blast
  have "\<bar>t - (1 - a0)\<bar> \<le> 2 * dl" using t1 a1 by linarith
  from scaled_err [OF assms(1,2) this] have e1: "\<bar>B * t - B * (1 - a0)\<bar> \<le> 510 * dl" by simp
  from scaled_err [OF assms(3,4) a1] have e2: "\<bar>F * al - F * a0\<bar> \<le> 255 * dl" .
  have r0: "0 \<le> 1 - a0" "1 - a0 \<le> 1" using assms by simp_all
  have b1: "B * (1 - a0) \<le> 255 * (1 - a0)"
    using assms(2) r0(1) by (rule mult_right_mono)
  have b2: "F * a0 \<le> 255 * a0"
    using assms(4,5) by (rule mult_right_mono)
  have "B * (1 - a0) + F * a0 \<le> 255 * (1 - a0) + 255 * a0"
    using b1 b2 by (rule add_mono)
  also have "\<dots> = 255" by simp
  finally have E: "B * (1 - a0) + F * a0 \<le> 255" .
  have sum: "\<bar>(p1 + p2) - (B * (1 - a0) + F * a0)\<bar> \<le> 767 * dl"
    using q1 q2 e1 e2 by linarith
  have lt: "p1 + p2 < 256" using sum E dlv(1) by linarith
  have ge: "0 \<le> p1 + p2" using n1 n2 by simp
  have s1: "\<bar>s - (p1 + p2)\<bar> \<le> dl" unfolding s_def dl_def using ge lt by (intro fl64_err_256)
  have s0: "0 \<le> s" unfolding s_def using ge by (rule fl64_nonneg)
  have tot: "\<bar>s - (B * (1 - a0) + F * a0)\<bar> \<le> 1 / 2 ^ 36"
    using s1 sum dlv(2) by linarith
  show "0 \<le> fl64 (fl64 (B * fl64 (1 - fl64 a0)) + fl64 (F * fl64 a0))"
    using s0 unfolding s_def p1_def p2_def t_def al_def .
  show "\<bar>fl64 (fl64 (B * fl64 (1 - fl64 a0)) + fl64 (F * fl64 a0)) - (B * (1 - a0) + F * a0)\<bar>
           \<le> 1 / 2 ^ 36"
    using tot unfolding s_def p1_def p2_def t_def al_def .
qed

lemma convex_le_255:
  fixes B F a0 :: rat
  assumes "B \<le> 255" and "F \<le> 255" and "0 \<le> a0" and "a0 \<le> 1"
  shows "B * (1 - a0) + F * a0 \<le> 255"
proof -
  have r0: "0 \<le> 1 - a0" using assms by simp
  have b1: "B * (1 - a0) \<le> 255 * (1 - a0)"
    using assms(1) r0 by (rule mult_right_mono)
  have b2: "F * a0 \<le> 255 * a0"
    using assms(2,3) by (rule mult_right_mono)
  have "B * (1 - a0) + F * a0 \<le> 255 * (1 - a0) + 255 * a0"
    using b1 b2 by (rule add_mono)
  also have "\<dots> = 255" by simp
  finally show ?thesis .
qed

lemma unat_word_of_floor:
  assumes "0 \<le> s" and "s < 256"
  shows "rat_of_nat (unat (word_of_int \<lfloor>s\<rfloor> :: uint8)) = of_int \<lfloor>s :: rat\<rfloor>"
proof -
  have f: "0 \<le> \<lfloor>s\<rfloor>" "\<lfloor>s\<rfloor> < 2 ^ 8" using assms by (simp_all add: floor_less_iff)
  have "uint (word_of_int \<lfloor>s\<rfloor> :: uint8) = \<lfloor>s\<rfloor>"
    using f by (simp add: uint_word_of_int_eq take_bit_int_eq_self)
  then have "int (unat (word_of_int \<lfloor>s\<rfloor> :: uint8)) = \<lfloor>s\<rfloor>"
    by simp
  then have "rat_of_int (int (unat (word_of_int \<lfloor>s\<rfloor> :: uint8))) = of_int \<lfloor>s\<rfloor>"
    by (simp only:)
  then show ?thesis by (simp only: of_int_of_nat_eq)
qed

lemma blend_near_exact:
  "rat_of_nat (unat bg) * (1 - rat_of_nat (unat a) / 255)
     + rat_of_nat (unat fg) * (rat_of_nat (unat a) / 255) - 1 - 1 / 2 ^ 36
     < rat_of_nat (unat (blend bg fg a))
   \<and> rat_of_nat (unat (blend bg fg a))
     \<le> rat_of_nat (unat bg) * (1 - rat_of_nat (unat a) / 255)
       + rat_of_nat (unat fg) * (rat_of_nat (unat a) / 255) + 1 / 2 ^ 36"
proof -
  define B where "B = rat_of_nat (unat bg)"
  define F where "F = rat_of_nat (unat fg)"
  define a0 where "a0 = rat_of_nat (unat a) / 255"
  define s where "s = fl64 (fl64 (B * fl64 (1 - fl64 a0)) + fl64 (F * fl64 a0))"
  have rB: "0 \<le> B" "B \<le> 255"
    unfolding B_def using unat_uint8_le [of bg] by (simp_all del: of_nat_unat)
  have rF: "0 \<le> F" "F \<le> 255"
    unfolding F_def using unat_uint8_le [of fg] by (simp_all del: of_nat_unat)
  have ra: "0 \<le> a0" "a0 \<le> 1"
    unfolding a0_def using ratio_range [OF unat_uint8_le [of a]] by blast+
  note n = blend_float_near [OF rB rF ra, folded s_def]
  note E = convex_le_255 [OF rB(2) rF(2) ra]
  have e36: "(1::rat) / 2 ^ 36 < 1" by simp
  have s256: "s < 256" using n(2) E e36 by linarith
  have bl: "blend bg fg a = word_of_int \<lfloor>s\<rfloor>"
    unfolding blend_def alpha_of_def Let_def s_def B_def F_def a0_def ..
  have v: "rat_of_nat (unat (blend bg fg a)) = of_int \<lfloor>s\<rfloor>"
    unfolding bl using n(1) s256 by (rule unat_word_of_floor)
  have fl: "s - 1 < of_int \<lfloor>s\<rfloor>" "of_int \<lfloor>s\<rfloor> \<le> s" by linarith+
  show ?thesis
    unfolding v B_def [symmetric] F_def [symmetric] a0_def [symmetric]
    using fl n(2) by linarith
qed

text \<open>
  C3, as amended. For an overlay whose resized bitmap has four channels, each element of
  the rectangle is, in each colour channel, \<^verbatim>\<open>bg * (1 - alpha) + fg * alpha\<close> as the code
  computes it: in double precision, with \<^verbatim>\<open>alpha\<close> the alpha sample divided by 255, and
  stored into the 8-bit frame with the fraction dropped. This value is not above the exact
  \<open>bg * (1 - a / 255) + fg * (a / 255)\<close> by more than \<open>2 powi - 36\<close> and less than one unit (and
  \<open>2 powi - 36\<close>) below it; \<^verbatim>\<open>alpha\<close> lies between 0 and 1; with alpha 255 the element is
  the one of the bitmap, with alpha 0 it is the one of the frame. A resized bitmap of three
  channels replaces the rectangle.
\<close>

theorem alpha_blend_pixels:
  assumes fr: "shape moved_frame = (H, W, 3)"
      and im: "shape img_array = (h, w, ch)"
      and cl: "clamp_rect W H x y w h = (x_pos, y_pos, img_w, img_h)"
      and pos: "0 < img_w \<and> 0 < img_h"
      and rs: "cv2_resize L img_array (nat img_w, nat img_h) = Inr img_resized"
      and sh: "shape img_resized = (nat img_h, nat img_w, rc)"
  shows "(rc = 4 \<longrightarrow>
           (\<exists>out. place_overlay L W H img_array x y moved_frame = (out, None) \<and>
              (\<forall>r c k. y_pos \<le> int r \<and> int r < y_pos + img_h \<and>
                       x_pos \<le> int c \<and> int c < x_pos + img_w \<and> k < 3 \<longrightarrow>
                 elem out r c k =
                   blend (elem moved_frame r c k)
                     (elem img_resized (r - nat y_pos) (c - nat x_pos) k)
                     (elem img_resized (r - nat y_pos) (c - nat x_pos) 3))))
       \<and> (rc = 3 \<longrightarrow>
           (\<exists>out. place_overlay L W H img_array x y moved_frame = (out, None) \<and>
              (\<forall>r c k. y_pos \<le> int r \<and> int r < y_pos + img_h \<and>
                       x_pos \<le> int c \<and> int c < x_pos + img_w \<and> k < 3 \<longrightarrow>
                 elem out r c k = elem img_resized (r - nat y_pos) (c - nat x_pos) k)))
       \<and> (\<forall>bg fg a.
             0 \<le> alpha_of a \<and> alpha_of a \<le> 1
           \<and> blend bg fg 255 = fg
           \<and> blend bg fg 0 = bg
           \<and> rat_of_nat (unat bg) * (1 - rat_of_nat (unat a) / 255)
                + rat_of_nat (unat fg) * (rat_of_nat (unat a) / 255) - 1 - 1 / 2 ^ 36
                < rat_of_nat (unat (blend bg fg a))
           \<and> rat_of_nat (unat (blend bg fg a))
                \<le> rat_of_nat (unat bg) * (1 - rat_of_nat (unat a) / 255)
                  + rat_of_nat (unat fg) * (rat_of_nat (unat a) / 255) + 1 / 2 ^ 36)"
proof -
  from pos have p: "0 < img_w" "0 < img_h" by simp_all
  note d = place_overlay_drawn [OF fr im cl p rs]
  have conv: "\<And>r c. y_pos \<le> int r \<and> int r < y_pos + img_h \<and>
                    x_pos \<le> int c \<and> int c < x_pos + img_w \<Longrightarrow>
                 nat y_pos \<le> r \<and> r < nat y_pos + nat img_h \<and>
                   nat x_pos \<le> c \<and> c < nat x_pos + nat img_w"
    using d(4,5) p by linarith
  have rgba: "rc = 4 \<longrightarrow>
           (\<exists>out. place_overlay L W H img_array x y moved_frame = (out, None) \<and>
              (\<forall>r c k. y_pos \<le> int r \<and> int r < y_pos + img_h \<and>
                       x_pos \<le> int c \<and> int c < x_pos + img_w \<and> k < 3 \<longrightarrow>
                 elem out r c k =
                   blend (elem moved_frame r c k)
                     (elem img_resized (r - nat y_pos) (c - nat x_pos) k)
                     (elem img_resized (r - nat y_pos) (c - nat x_pos) 3)))"
  proof
    assume "rc = 4"
    with sh have sh4: "shape img_resized = (nat img_h, nat img_w, 4)" by simp
    define out where "out = moved_frame\<lparr>elem := (\<lambda>r c k.
                if nat y_pos \<le> r \<and> r < nat y_pos + nat img_h \<and>
                   nat x_pos \<le> c \<and> c < nat x_pos + nat img_w \<and> k < 3
                then blend (elem moved_frame r c k)
                       (elem img_resized (r - nat y_pos) (c - nat x_pos) k)
                       (elem img_resized (r - nat y_pos) (c - nat x_pos) 3)
                else elem moved_frame r c k)\<rparr>"
    have pl: "place_overlay L W H img_array x y moved_frame = (out, None)"
      unfolding d(1) out_def by (rule composite_rgba [OF d(2) d(3) sh4])
    show "\<exists>out. place_overlay L W H img_array x y moved_frame = (out, None) \<and>
              (\<forall>r c k. y_pos \<le> int r \<and> int r < y_pos + img_h \<and>
                       x_pos \<le> int c \<and> int c < x_pos + img_w \<and> k < 3 \<longrightarrow>
                 elem out r c k =
                   blend (elem moved_frame r c k)
                     (elem img_resized (r - nat y_pos) (c - nat x_pos) k)
                     (elem img_resized (r - nat y_pos) (c - nat x_pos) 3))"
    proof (intro exI conjI allI impI)
      show "place_overlay L W H img_array x y moved_frame = (out, None)" by (rule pl)
    next
      fix r c and k :: nat
      assume a: "y_pos \<le> int r \<and> int r < y_pos + img_h \<and>
                 x_pos \<le> int c \<and> int c < x_pos + img_w \<and> k < 3"
      then have "nat y_pos \<le> r \<and> r < nat y_pos + nat img_h \<and>
                 nat x_pos \<le> c \<and> c < nat x_pos + nat img_w"
        using conv [of r c] by blast
      with a show "elem out r c k =
                   blend (elem moved_frame r c k)
                     (elem img_resized (r - nat y_pos) (c - nat x_pos) k)
                     (elem img_resized (r - nat y_pos) (c - nat x_pos) 3)"
        by (simp add: out_def)
    qed
  qed
  have rgb: "rc = 3 \<longrightarrow>
           (\<exists>out. place_overlay L W H img_array x y moved_frame = (out, None) \<and>
              (\<forall>r c k. y_pos \<le> int r \<and> int r < y_pos + img_h \<and>
                       x_pos \<le> int c \<and> int c < x_pos + img_w \<and> k < 3 \<longrightarrow>
                 elem out r c k = elem img_resized (r - nat y_pos) (c - nat x_pos) k))"
  proof
    assume "rc = 3"
    with sh have sh3: "shape img_resized = (nat img_h, nat img_w, 3)" by simp
    define out where "out = moved_frame\<lparr>elem := (\<lambda>r c k.
                if nat y_pos \<le> r \<and> r < nat y_pos + nat img_h \<and>
                   nat x_pos \<le> c \<and> c < nat x_pos + nat img_w \<and> k < 3
                then elem img_resized (r - nat y_pos) (c - nat x_pos) k
                else elem moved_frame r c k)\<rparr>"
    have pl: "place_overlay L W H img_array x y moved_frame = (out, None)"
      unfolding d(1) out_def by (rule composite_rgb [OF d(2) d(3) sh3])
    show "\<exists>out. place_overlay L W H img_array x y moved_frame = (out, None) \<and>
              (\<forall>r c k. y_pos \<le> int r \<and> int r < y_pos + img_h \<and>
                       x_pos \<le> int c \<and> int c < x_pos + img_w \<and> k < 3 \<longrightarrow>
                 elem out r c k = elem img_resized (r - nat y_pos) (c - nat x_pos) k)"
    proof (intro exI conjI allI impI)
      show "place_overlay L W H img_array x y moved_frame = (out, None)" by (rule pl)
    next
      fix r c and k :: nat
      assume a: "y_pos \<le> int r \<and> int r < y_pos + img_h \<and>
                 x_pos \<le> int c \<and> int c < x_pos + img_w \<and> k < 3"
      then have "nat y_pos \<le> r \<and> r < nat y_pos + nat img_h \<and>
                 nat x_pos \<le> c \<and> c < nat x_pos + nat img_w"
        using conv [of r c] by blast
      with a show "elem out r c k = elem img_resized (r - nat y_pos) (c - nat x_pos) k"
        by (simp add: out_def)
    qed
  qed
  have fl: "\<forall>bg fg a.
             0 \<le> alpha_of a \<and> alpha_of a \<le> 1
           \<and> blend bg fg 255 = fg
           \<and> blend bg fg 0 = bg
           \<and> rat_of_nat (unat bg) * (1 - rat_of_nat (unat a) / 255)
                + rat_of_nat (unat fg) * (rat_of_nat (unat a) / 255) - 1 - 1 / 2 ^ 36
                < rat_of_nat (unat (blend bg fg a))
           \<and> rat_of_nat (unat (blend bg fg a))
                \<le> rat_of_nat (unat bg) * (1 - rat_of_nat (unat a) / 255)
                  + rat_of_nat (unat fg) * (rat_of_nat (unat a) / 255) + 1 / 2 ^ 36"
    using alpha_of_range blend_opaque blend_transparent blend_near_exact by blast
  from rgba rgb fl show ?thesis by blast
qed

text \<open>
  On the 20 x 12 frame, the bitmap of colour 200 with alpha 0, 128 and 255 in its first
  three columns, put at row 5: the frame keeps 50 in the first column, gets 125 in the
  second (from 51; the exact value is 125.79...) and 200 in the third.
\<close>

theorem alpha_blend_pixels_witness:
  "shape demo_frame = (12, 20, 3) \<and> shape demo_rgba = (2, 4, 4)
   \<and> clamp_rect 20 12 0 5 4 2 = (0, 5, 4, 2)
   \<and> cv2_resize demo_lib demo_rgba (4, 2) = Inr (nn_resize demo_rgba (4, 2))
   \<and> shape (nn_resize demo_rgba (4, 2)) = (2, 4, 4)
   \<and> snd (place_overlay demo_lib 20 12 demo_rgba 0 5 demo_frame) = None
   \<and> elem demo_frame 5 0 0 = 50 \<and> elem demo_frame 5 1 0 = 51
   \<and> elem (fst (place_overlay demo_lib 20 12 demo_rgba 0 5 demo_frame)) 5 0 0 = 50
   \<and> elem (fst (place_overlay demo_lib 20 12 demo_rgba 0 5 demo_frame)) 5 1 0 = 125
   \<and> elem (fst (place_overlay demo_lib 20 12 demo_rgba 0 5 demo_frame)) 5 2 0 = 200"
proof -
  have h1: "shape demo_frame = (12, 20, 3)" by (simp add: demo_frame_def)
  have h2: "shape demo_rgba = (2, 4, 4)" by (simp add: demo_rgba_def)
  have h3: "clamp_rect 20 12 0 5 4 2 = (0, 5, 4, 2)" by (simp add: clamp_rect_def)
  have h4: "(0::int) < 4 \<and> (0::int) < 2" by simp
  have h5: "cv2_resize demo_lib demo_rgba (nat 4, nat 2) = Inr (nn_resize demo_rgba (4, 2))"
    by (simp add: demo_lib_def)
  have h6: "shape (nn_resize demo_rgba (4, 2)) = (nat 2, nat 4, 4)"
    by (simp add: nn_resize_def demo_rgba_def)
  note th = alpha_blend_pixels [OF h1 h2 h3 h4 h5 h6]
  from th obtain out where pl: "place_overlay demo_lib 20 12 demo_rgba 0 5 demo_frame = (out, None)"
    and px: "\<And>r c k. 0 \<le> int r \<and> int r < 0 + 2 + 5 \<and> 5 \<le> int r \<and> 0 \<le> int c \<and> int c < 0 + 4 \<and> k < 3 \<Longrightarrow>
                elem out r c k =
                  blend (elem demo_frame r c k)
                    (elem (nn_resize demo_rgba (4, 2)) (r - nat 5) (c - nat 0) k)
                    (elem (nn_resize demo_rgba (4, 2)) (r - nat 5) (c - nat 0) 3)"
    by auto
  from th have op: "\<And>bg fg. blend bg fg 255 = fg" and tr: "\<And>bg fg. blend bg fg 0 = bg"
    by blast+
  have f: "elem demo_frame 5 0 0 = 50 \<and> elem demo_frame 5 1 0 = 51"
    by (simp add: demo_frame_def)
  have "elem out 5 0 0 = 50"
    using px [of 5 0 0] by (simp add: nn_resize_def demo_rgba_def demo_frame_def tr)
  moreover have "elem out 5 1 0 = 125"
    using px [of 5 1 0] by (simp add: nn_resize_def demo_rgba_def demo_frame_def blend_values)
  moreover have "elem out 5 2 0 = 200"
    using px [of 5 2 0] by (simp add: nn_resize_def demo_rgba_def demo_frame_def op)
  moreover have "cv2_resize demo_lib demo_rgba (4, 2) = Inr (nn_resize demo_rgba (4, 2))"
    by (simp add: demo_lib_def)
  moreover have "shape (nn_resize demo_rgba (4, 2)) = (2, 4, 4)"
    by (simp add: nn_resize_def demo_rgba_def)
  ultimately show ?thesis using h1 h2 h3 f by (simp add: pl)
qed

text \<open>
  C3 as stated fails: blending colour 3 over colour 3 with alpha 5 gives 2, where
  \<open>bg * (1 - \<alpha>) + fg * \<alpha>\<close> is 3 for every \<open>\<alpha>\<close>. The sum is computed as
  2.9999999999999996 and the store into the frame drops the fraction.
\<close>

theorem alpha_blend_inexact_counterexample:
  "place_overlay demo_lib 1 1 grey_rgba 0 0 grey_frame =
     (grey_frame\<lparr>elem := (\<lambda>r c k. if r < 1 \<and> c < 1 \<and> k < 3 then 2 else 3)\<rparr>, None)
   \<and> elem grey_frame 0 0 0 = 3 \<and> elem grey_rgba 0 0 0 = 3 \<and> elem grey_rgba 0 0 3 = 5
   \<and> elem (fst (place_overlay demo_lib 1 1 grey_rgba 0 0 grey_frame)) 0 0 0 = 2
   \<and> (\<forall>\<alpha>::rat. rat_of_nat (unat (elem (fst (place_overlay demo_lib 1 1 grey_rgba 0 0 grey_frame)) 0 0 0))
         \<noteq> rat_of_nat (unat (elem grey_frame 0 0 0)) * (1 - \<alpha>)
           + rat_of_nat (unat (elem grey_rgba 0 0 0)) * \<alpha>)"
proof -
  have h1: "shape grey_frame = (1, 1, 3)" by (simp add: grey_frame_def)
  have h2: "shape grey_rgba = (1, 1, 4)" by (simp add: grey_rgba_def)
  have h3: "clamp_rect 1 1 0 0 1 1 = (0, 0, 1, 1)" by (simp add: clamp_rect_def)
  have h5: "cv2_resize demo_lib grey_rgba (nat 1, nat 1) = Inr grey_rgba"
    by (simp add: demo_lib_def nn_resize_def grey_rgba_def)
  note d = place_overlay_drawn [OF h1 h2 h3 _ _ h5]
  have sh: "shape grey_rgba = (nat 1, nat 1, 4)" by (simp add: grey_rgba_def)
  have rows: "frame_rows grey_frame 0 1 = (0, 0 + nat 1)" using d(2) by simp
  have cols: "frame_cols grey_frame 0 1 = (0, 0 + nat 1)" using d(3) by simp
  have "place_overlay demo_lib 1 1 grey_rgba 0 0 grey_frame = composite grey_rgba 0 0 1 1 grey_frame"
    using d(1) by simp
  also have "\<dots> = (grey_frame\<lparr>elem := (\<lambda>r c k.
                if 0 \<le> r \<and> r < 0 + nat 1 \<and> 0 \<le> c \<and> c < 0 + nat 1 \<and> k < 3
                then blend (elem grey_frame r c k) (elem grey_rgba (r - 0) (c - 0) k)
                       (elem grey_rgba (r - 0) (c - 0) 3)
                else elem grey_frame r c k)\<rparr>, None)"
    by (rule composite_rgba [OF rows cols sh])
  also have "(\<lambda>r c k.
                if 0 \<le> r \<and> r < 0 + nat 1 \<and> 0 \<le> c \<and> c < 0 + nat 1 \<and> k < 3
                then blend (elem grey_frame r c k) (elem grey_rgba (r - 0) (c - 0) k)
                       (elem grey_rgba (r - 0) (c - 0) 3)
                else elem grey_frame r c k)
      = (\<lambda>r c k. if r < 1 \<and> c < 1 \<and> k < 3 then 2 else 3)"
    by (intro ext) (simp add: grey_frame_def grey_rgba_def blend_values)
  finally have pl: "place_overlay demo_lib 1 1 grey_rgba 0 0 grey_frame =
     (grey_frame\<lparr>elem := (\<lambda>r c k. if r < 1 \<and> c < 1 \<and> k < 3 then 2 else 3)\<rparr>, None)" .
  have v: "elem grey_frame 0 0 0 = 3 \<and> elem grey_rgba 0 0 0 = 3 \<and> elem grey_rgba 0 0 3 = 5"
    by (simp add: grey_frame_def grey_rgba_def)
  have u: "rat_of_nat (unat (2 :: uint8)) = 2" "rat_of_nat (unat (3 :: uint8)) = 3"
    by simp_all
  have ne: "\<forall>\<alpha>::rat. rat_of_nat (unat (2 :: uint8)) \<noteq> rat_of_nat (unat (3 :: uint8)) * (1 - \<alpha>)
           + rat_of_nat (unat (3 :: uint8)) * \<alpha>"
    unfolding u by (simp add: algebra_simps)
  show ?thesis
    unfolding pl using v ne by simp
qed

section \<open>The export against the preview\<close>

text \<open>
  C5. The claim is that the composite built by the export (black background, the video at
  \<open>(0, min offset (H - 10))\<close>, the overlays at \<open>(x, y)\<close>) renders every frame as the
  transform of the preview makes it. For the video of 16 x 8 pixels and offset 0 the two
  paths part before anything is rendered: the preview raises at line 120 and emits no
  frame, while the export builds the composite with the video layer at \<open>(0, -2)\<close> and calls
  \<^verbatim>\<open>write_videofile\<close> for it.
\<close>

theorem export_preview_diverge:
  "filter is_preview (process_preview small_lib small_self) = []
   \<and> filter is_write (process_videos small_lib (\<lambda>i. False) small_self) =
       [write_videofile (write_call_for small_lib small_self ''/out'' small_clip ''/in/s.mp4'')]
   \<and> wc_clips (write_call_for small_lib small_self ''/out'' small_clip ''/in/s.mp4'') =
       [ColorLayer (16, 8) (0, 0, 0) 3, VideoLayer small_clip (0, - 2)]
   \<and> wc_filename (write_call_for small_lib small_self ''/out'' small_clip ''/in/s.mp4'') =
       ''/out/s_processed.mp4''"
proof -
  have s: "shift_frame 16 8 0 small_frame = Inl ValueError"
    using shift_frame_raises [of small_frame 8 16 0] by (simp add: small_frame_def)
  have p: "filter is_preview (process_preview small_lib small_self) = []"
    by (simp add: process_preview_def small_lib_def small_self_def demo_lib_def small_clip_def
        s is_preview_def)
  have vf: "video_files small_self = [''/in/s.mp4'']" "output_dir small_self = Some ''/out''"
    by (simp_all add: small_self_def)
  have op: "VideoFileClip small_lib ''/in/s.mp4'' = Inr small_clip"
    by (simp add: small_lib_def)
  have run: "\<forall>i. 0 \<le> i \<and> i < 0 + length [''/in/s.mp4''] \<longrightarrow> \<not> (\<lambda>i. False) i"
    by simp
  have w: "filter is_write (process_videos small_lib (\<lambda>i. False) small_self) =
       [write_videofile (write_call_for small_lib small_self ''/out'' small_clip ''/in/s.mp4'')]"
    by (simp add: process_videos_def vf process_loop_running [OF run] process_item_writes op)
       (simp add: is_write_def)
  have c: "wc_clips (write_call_for small_lib small_self ''/out'' small_clip ''/in/s.mp4'') =
       [ColorLayer (16, 8) (0, 0, 0) 3, VideoLayer small_clip (0, - 2)]"
    by (simp add: write_call_for_def build_clips_def add_overlay_def small_self_def
        small_clip_def Let_def)
  have f: "wc_filename (write_call_for small_lib small_self ''/out'' small_clip ''/in/s.mp4'') =
       ''/out/s_processed.mp4''"
    by (simp add: write_call_for_def output_file_of_def small_lib_def demo_lib_def
        posix_basename_def posix_splitext_def posix_join_def)
  from p w c f show ?thesis by blast
qed

end
